theory Spec2Isabelle
  imports Main
begin

text \<open>
  A model of two modules of the Feishu channel plugin: \<open>monitor.ts\<close>, which receives the
  events of the platform on one live WebSocket session and forwards each message once,
  and \<open>reply-dispatcher.ts\<close>, which renders the streamed output of the agent into one
  card that is created, patched and finally replaced, with a standalone delivery as
  fallback. Module-level and closure variables become the fields of a state record,
  callbacks become functions from state to state, and what the callbacks do to the outside
  (calls of \<open>handleFeishuMessage\<close>, network calls, timers) is recorded in the state.
\<close>

section \<open>JavaScript values used by the two modules\<close>

text \<open>
  A JavaScript string is a sequence of UTF-16 code units; a code unit is modelled as a
  natural number. \<open>js\<close> turns an ASCII literal of the source into such a string.
\<close>

type_synonym jsstring = "nat list"

definition js :: "string \<Rightarrow> jsstring" where
  "js s = map of_char s"

text \<open>Truthiness of a string value that may be \<open>null\<close>/\<open>undefined\<close>: \<open>if (x)\<close>.\<close>

fun truthy :: "jsstring option \<Rightarrow> bool" where
  "truthy None = False"
| "truthy (Some t) = (t \<noteq> [])"

text \<open>
  \<open>x++\<close> on a JavaScript number that only ever holds non-negative integers: exact
  below \<open>2^53\<close>, and \<open>2^53 + 1\<close> rounds back to \<open>2^53\<close>.
\<close>

definition js_incr :: "nat \<Rightarrow> nat" where
  "js_incr n = (if n < 2 ^ 53 then n + 1 else n)"

section \<open>monitor.ts: session generation and inbound de-duplication\<close>

text \<open>
  The module-level state read and written by the \<open>im.message.receive_v1\<close> handler:
  \<open>activeSessionId\<close>, \<open>processedMessages\<close> (a \<open>Map<string, number>\<close>, kept as an
  association list in insertion order), and, as the observable effect of the handler, the
  sequence of calls made to \<open>handleFeishuMessage\<close> (oldest first). Log output and the
  transport handle \<open>currentWsClient\<close> are not part of this state: neither is read by the
  handler. \<open>Date.now()\<close> is an argument of every step that reads the clock.
\<close>

record message_event =
  message_id :: "jsstring option"
  content :: jsstring

record monitor_state =
  activeSessionId :: nat
  processedMessages :: "(jsstring \<times> int) list"
  forwarded :: "message_event list"

definition DEDUP_TTL_MS :: int where
  "DEDUP_TTL_MS = 60 * 60 * 1000"

definition monitor_init :: monitor_state where
  "monitor_init = \<lparr>activeSessionId = 0, processedMessages = [], forwarded = []\<rparr>"

text \<open>
  The operations of a JavaScript \<open>Map\<close> with string keys, on an association list in
  insertion order: \<open>has\<close>, \<open>get\<close>, \<open>set\<close> (an existing key keeps its place),
  \<open>delete\<close> and \<open>size\<close>.
\<close>

definition map_has :: "(jsstring \<times> 'v) list \<Rightarrow> jsstring \<Rightarrow> bool" where
  "map_has m k = (k \<in> set (map fst m))"

definition map_get :: "(jsstring \<times> 'v) list \<Rightarrow> jsstring \<Rightarrow> 'v option" where
  "map_get m k = map_of m k"

fun map_set :: "(jsstring \<times> 'v) list \<Rightarrow> jsstring \<Rightarrow> 'v \<Rightarrow> (jsstring \<times> 'v) list" where
  "map_set [] k v = [(k, v)]"
| "map_set ((k', v') # m) k v = (if k' = k then (k, v) # m else (k', v') # map_set m k v)"

definition map_delete :: "(jsstring \<times> 'v) list \<Rightarrow> jsstring \<Rightarrow> (jsstring \<times> 'v) list" where
  "map_delete m k = filter (\<lambda>(k', v). k' \<noteq> k) m"

definition map_size :: "(jsstring \<times> 'v) list \<Rightarrow> nat" where
  "map_size m = length m"

definition pruneProcessedMessages :: "int \<Rightarrow> (jsstring \<times> int) list \<Rightarrow> (jsstring \<times> int) list" where
  "pruneProcessedMessages now m = filter (\<lambda>(id, ts). \<not> (now - ts > DEDUP_TTL_MS)) m"

text \<open>
  The handler registered by one \<open>monitorWebSocket\<close> call, with the generation
  \<open>mySessionId\<close> that call captured. The step covers the handler up to and including the
  call of \<open>handleFeishuMessage\<close>; everything before that call runs without suspension.
\<close>

definition receive_handler :: "nat \<Rightarrow> message_event \<Rightarrow> int \<Rightarrow> monitor_state \<Rightarrow> monitor_state" where
  "receive_handler mySessionId event now s =
     (if mySessionId \<noteq> activeSessionId s then s
      else if truthy (message_id event) then
        (let msgId = the (message_id event) in
         if map_has (processedMessages s) msgId then s
         else
           (let pm = map_set (processedMessages s) msgId now;
                pm' = (if map_size pm > 200 then pruneProcessedMessages now pm else pm)
            in s\<lparr>processedMessages := pm', forwarded := forwarded s @ [event]\<rparr>))
      else s\<lparr>forwarded := forwarded s @ [event]\<rparr>)"

text \<open>
  \<open>monitorWebSocket\<close> up to the registration of its handlers: returns the captured
  generation and the new state. \<open>stopFeishuMonitor\<close> retires every handler.
\<close>

definition monitorWebSocket :: "monitor_state \<Rightarrow> nat \<times> monitor_state" where
  "monitorWebSocket s =
     (let s' = s\<lparr>activeSessionId := js_incr (activeSessionId s)\<rparr>
      in (activeSessionId s', s'))"

definition stopFeishuMonitor :: "monitor_state \<Rightarrow> monitor_state" where
  "stopFeishuMonitor s = s\<lparr>activeSessionId := js_incr (activeSessionId s)\<rparr>"

datatype monitor_op =
    StartMonitor
  | StopMonitor
  | Receive nat message_event int

fun monitor_step :: "monitor_state \<Rightarrow> monitor_op \<Rightarrow> monitor_state" where
  "monitor_step s StartMonitor = snd (monitorWebSocket s)"
| "monitor_step s StopMonitor = stopFeishuMonitor s"
| "monitor_step s (Receive sid ev now) = receive_handler sid ev now s"

definition monitor_run :: "monitor_op list \<Rightarrow> monitor_state \<Rightarrow> monitor_state" where
  "monitor_run ops s = foldl monitor_step s ops"

text \<open>The clock readings of a trace stay within the TTL window that opened at \<open>t0\<close>.\<close>

fun within_ttl :: "int \<Rightarrow> monitor_op \<Rightarrow> bool" where
  "within_ttl t0 (Receive sid ev now) = (now - t0 \<le> DEDUP_TTL_MS)"
| "within_ttl t0 _ = True"

definition forwarded_for :: "jsstring \<Rightarrow> monitor_state \<Rightarrow> message_event list" where
  "forwarded_for m s = filter (\<lambda>e. message_id e = Some m) (forwarded s)"

section \<open>reply-dispatcher.ts: text helpers\<close>

text \<open>
  \<open>String.prototype.trim\<close> removes leading and trailing white space and line terminators.
  \<open>text.trim()\<close> is falsy exactly when the trimmed string is empty.
\<close>

definition js_whitespace :: "nat \<Rightarrow> bool" where
  "js_whitespace c =
     (c \<in> set [9, 10, 11, 12, 13, 32, 160, 5760, 8232, 8233, 8239, 8287, 12288, 65279]
      \<or> (8192 \<le> c \<and> c \<le> 8202))"

definition trim :: "jsstring \<Rightarrow> jsstring" where
  "trim t = rev (dropWhile js_whitespace (rev (dropWhile js_whitespace t)))"

definition startsWith :: "jsstring \<Rightarrow> jsstring \<Rightarrow> bool" where
  "startsWith t p = (take (length p) t = p)"

definition endsWith :: "jsstring \<Rightarrow> jsstring \<Rightarrow> bool" where
  "endsWith t p = (length p \<le> length t \<and> drop (length t - length p) t = p)"

definition NL :: jsstring where
  "NL = [10]"

text \<open>
  The regular expression of \<open>hasMarkdownTable\<close> is a sequence of character classes, each
  taken once or one or more times. \<open>RegExp.prototype.test\<close> without anchors asks whether
  some substring matches: \<open>match_here\<close> matches the items against a prefix of the text,
  \<open>regex_test\<close> tries every start position.
\<close>

datatype char_class = In "nat list" | NotIn "nat list"

fun in_class :: "char_class \<Rightarrow> nat \<Rightarrow> bool" where
  "in_class (In cs) c = (c \<in> set cs)"
| "in_class (NotIn cs) c = (c \<notin> set cs)"

datatype regex_item = Once char_class | Many char_class

fun match_here :: "regex_item list \<Rightarrow> jsstring \<Rightarrow> bool" where
  "match_here [] t = True"
| "match_here (Once k # r) [] = False"
| "match_here (Once k # r) (c # t) = (in_class k c \<and> match_here r t)"
| "match_here (Many k # r) [] = False"
| "match_here (Many k # r) (c # t) =
     (in_class k c \<and> (match_here (Many k # r) t \<or> match_here r t))"

fun regex_test :: "regex_item list \<Rightarrow> jsstring \<Rightarrow> bool" where
  "regex_test r [] = match_here r []"
| "regex_test r (c # t) = (match_here r (c # t) \<or> regex_test r t)"

text \<open>
  \<open>/\|.+\|[\r\n]+\|[-:| ]+\|/\<close>: the dot matches every code unit but the four line
  terminators.
\<close>

definition table_regex :: "regex_item list" where
  "table_regex =
     [Once (In [124]), Many (NotIn [10, 13, 8232, 8233]), Once (In [124]),
      Many (In [13, 10]),
      Once (In [124]), Many (In [45, 58, 124, 32]), Once (In [124])]"

definition hasMarkdownTable :: "jsstring \<Rightarrow> bool" where
  "hasMarkdownTable t = regex_test table_regex t"

section \<open>reply-dispatcher.ts: the state of one reply\<close>

definition DEFAULT_PATCH_INTERVAL_MS :: int where
  "DEFAULT_PATCH_INTERVAL_MS = 500"

definition DEFAULT_THINKING_UPDATE_INTERVAL_MS :: int where
  "DEFAULT_THINKING_UPDATE_INTERVAL_MS = 800"

text \<open>The part of the channel configuration the dispatcher reads for its timing.\<close>

record streaming_cfg =
  enabled :: "bool option"
  cfg_patchIntervalMs :: "int option"
  cursor :: "bool option"

record feishu_cfg =
  streaming :: "streaming_cfg option"

text \<open>\<open>feishuCfg?.streaming?.patchIntervalMs ?? DEFAULT_PATCH_INTERVAL_MS\<close>\<close>

definition patchIntervalMs :: "feishu_cfg option \<Rightarrow> int" where
  "patchIntervalMs feishuCfg =
     (case feishuCfg of
        None \<Rightarrow> DEFAULT_PATCH_INTERVAL_MS
      | Some c \<Rightarrow>
          (case streaming c of
             None \<Rightarrow> DEFAULT_PATCH_INTERVAL_MS
           | Some st \<Rightarrow>
               (case cfg_patchIntervalMs st of
                  None \<Rightarrow> DEFAULT_PATCH_INTERVAL_MS
                | Some v \<Rightarrow> v)))"

text \<open>
  Network calls, one constructor per call site. The render tree built by
  \<open>buildCurrentCard(isFinal)\<close> is a pure function of the state and of \<open>isFinal\<close> and is
  recorded by that flag; the final update and the standalone card carry their
  \<open>replyMarkdown\<close>:
  \<^item> \<open>CardCreate isFinal\<close>: \<open>sendCardFeishu\<close> in \<open>patchCard\<close>;
  \<^item> \<open>CardUpdate messageId isFinal\<close>: \<open>updateCardFeishu\<close> in \<open>patchCard\<close>;
  \<^item> \<open>FinalUpdate messageId fullText\<close>: \<open>updateCardFeishu\<close> in \<open>doDeliverFinalReply\<close>;
  \<^item> \<open>StandaloneCard text\<close>: \<open>sendCardFeishu\<close> in \<open>deliverStandalone\<close>;
  \<^item> \<open>SendText chunk\<close>: \<open>sendMessageFeishu\<close> in \<open>deliverStandalone\<close>.
\<close>

datatype net_call =
    CardCreate bool
  | CardUpdate jsstring bool
  | FinalUpdate jsstring jsstring
  | StandaloneCard jsstring
  | SendText jsstring

text \<open>
  How a network call settles: resolved with the message id of the result at some clock
  reading, or rejected (the awaited call throws).
\<close>

datatype net_result = Resolved jsstring int | Rejected

datatype outcome = Returned | Threw

text \<open>
  What surrounds one dispatcher: its configuration, the plain-text conversion and chunking
  of the SDK (\<open>chunkTextWithMode(convertMarkdownTables(text, tableMode), textChunkLimit,
  chunkMode)\<close>, not part of this repository), and the network, which settles the
  call number \<open>n\<close> of this reply with \<open>network n\<close> (counting from 0).
\<close>

record dispatcher_env =
  feishuCfg :: "feishu_cfg option"
  plainChunks :: "jsstring \<Rightarrow> jsstring list"
  network :: "nat \<Rightarrow> net_result"

record tool_entry =
  tool_name :: jsstring
  tool_args :: "(jsstring \<times> jsstring) list option"
  startedAt :: int

record completed_tool_entry = tool_entry +
  failed :: bool

text \<open>
  The closure variables of \<open>createFeishuReplyDispatcher\<close>, and what the runtime holds
  for the reply between two steps:
  \<^item> \<open>timers\<close>: the timers still to fire (handle and delay, a fresh handle per
    \<open>setTimeout\<close>);
  \<^item> \<open>netCalls\<close>: the network calls issued so far, oldest first; a call is named by its
    position in this list;
  \<^item> \<open>creating\<close>, \<open>updating\<close>: the create and update calls of \<open>patchCard\<close> that are in
    flight. \<open>patchCard\<close> is started without being awaited (\<open>void patchCard(false)\<close>), so
    other callbacks run before its call settles;
  \<^item> \<open>waiting\<close>: the \<open>patchCard\<close> calls suspended at \<open>await cardCreationPromise\<close>, in
    the order they arrived, each with the call whose promise it awaits and its \<open>isFinal\<close>.
  \<open>cardCreationPromise\<close> holds the call whose promise the variable refers to. The calls of
  \<open>doDeliverFinalReply\<close> and \<open>deliverStandalone\<close> are awaited by the callback that makes
  them and settle within its step. The typing indicator is independent of these variables
  and is left out.
\<close>

record reply_state =
  cardMessageId :: "jsstring option"
  accumulatedText :: jsstring
  lastPatchTime :: int
  pendingPatchTimer :: "nat option"
  streamingFailed :: bool
  cardCreationPromise :: "nat option"
  thinkingText :: "jsstring option"
  activeTools :: "(jsstring \<times> tool_entry) list"
  completedTools :: "completed_tool_entry list"
  thinkingStopped :: bool
  hasThinkingContent :: bool
  thinkingStartedAt :: "int option"
  standaloneDelivered :: bool
  timers :: "(nat \<times> int) list"
  nextTimer :: nat
  netCalls :: "net_call list"
  creating :: "nat list"
  updating :: "nat list"
  waiting :: "(nat \<times> bool) list"

definition reply_init :: reply_state where
  "reply_init =
     \<lparr>cardMessageId = None, accumulatedText = [], lastPatchTime = 0,
      pendingPatchTimer = None, streamingFailed = False, cardCreationPromise = None,
      thinkingText = None, activeTools = [], completedTools = [], thinkingStopped = False,
      hasThinkingContent = False, thinkingStartedAt = None, standaloneDelivered = False,
      timers = [], nextTimer = 0, netCalls = [], creating = [], updating = [], waiting = []\<rparr>"

section \<open>reply-dispatcher.ts: the unified card\<close>

text \<open>The \<open>catch\<close> block of \<open>patchCard\<close>.\<close>

definition patch_failed :: "reply_state \<Rightarrow> reply_state" where
  "patch_failed s =
     (let s1 = s\<lparr>cardCreationPromise := None\<rparr>
      in if \<not> truthy (cardMessageId s1) then s1\<lparr>streamingFailed := True\<rparr> else s1)"

text \<open>
  \<open>patchCard\<close> from \<open>buildCurrentCard\<close> to the awaited call: a create when there is no
  card, with \<open>cardCreationPromise\<close> set to its promise, an update otherwise. The call is
  issued and stays in flight.
\<close>

definition patch_send :: "bool \<Rightarrow> reply_state \<Rightarrow> reply_state" where
  "patch_send isFinal s =
     (let n = length (netCalls s)
      in if \<not> truthy (cardMessageId s)
         then s\<lparr>netCalls := netCalls s @ [CardCreate isFinal],
                cardCreationPromise := Some n, creating := creating s @ [n]\<rparr>
         else s\<lparr>netCalls := netCalls s @ [CardUpdate (the (cardMessageId s)) isFinal],
                updating := updating s @ [n]\<rparr>)"

text \<open>
  A call of \<open>patchCard\<close> up to its first suspension: the two early returns, then either
  the wait for the creation in flight or the call itself. (\<open>env\<close> stands for the closure
  constants the call passes on; the result of the call arrives with \<open>settles\<close>.)
\<close>

definition patchCard :: "dispatcher_env \<Rightarrow> bool \<Rightarrow> reply_state \<Rightarrow> reply_state" where
  "patchCard env isFinal s =
     (if streamingFailed s then s
      else if \<not> isFinal \<and> accumulatedText s \<noteq> [] \<and> hasMarkdownTable (accumulatedText s) then s
      else
        (case cardCreationPromise s of
           Some p \<Rightarrow> s\<lparr>waiting := waiting s @ [(p, isFinal)]\<rparr>
         | None \<Rightarrow> patch_send isFinal s))"

text \<open>
  The call \<open>n\<close> of \<open>patchCard\<close> settles with \<open>network env n\<close>.
  \<^item> A create that resolves runs its \<open>then\<close> callback (\<open>cardMessageId\<close>,
    \<open>lastPatchTime\<close>, \<open>cardCreationPromise = null\<close>); the calls that waited for it resume
    in order, each building the card from the state of that moment and issuing its own
    call, without testing \<open>streamingFailed\<close> or the table again.
  \<^item> A create that is rejected runs the \<open>catch\<close> block of its caller; the calls that
    waited for it are rejected at their \<open>await\<close>, which is outside the \<open>try\<close>, and end.
  \<^item> An update that resolves sets \<open>lastPatchTime\<close>; one that is rejected runs the
    \<open>catch\<close> block.
  A call that is not in flight does not settle.
\<close>

definition settles :: "dispatcher_env \<Rightarrow> nat \<Rightarrow> reply_state \<Rightarrow> reply_state" where
  "settles env n s =
     (if n \<in> set (creating s) then
        (let resumed = filter (\<lambda>(p, f). p = n) (waiting s);
             s1 = s\<lparr>creating := removeAll n (creating s),
                    waiting := filter (\<lambda>(p, f). p \<noteq> n) (waiting s)\<rparr>
         in case network env n of
              Resolved messageId t \<Rightarrow>
                foldl (\<lambda>s' (p, f). patch_send f s')
                  (s1\<lparr>cardMessageId := Some messageId, lastPatchTime := t,
                      cardCreationPromise := None\<rparr>)
                  resumed
            | Rejected \<Rightarrow> patch_failed s1)
      else if n \<in> set (updating s) then
        (let s1 = s\<lparr>updating := removeAll n (updating s)\<rparr>
         in case network env n of
              Resolved messageId t \<Rightarrow> s1\<lparr>lastPatchTime := t\<rparr>
            | Rejected \<Rightarrow> patch_failed s1)
      else s)"

definition schedulePatch :: "dispatcher_env \<Rightarrow> int \<Rightarrow> reply_state \<Rightarrow> reply_state" where
  "schedulePatch env now s =
     (if pendingPatchTimer s \<noteq> None then s
      else
        (let delay = max 0 (patchIntervalMs (feishuCfg env) - (now - lastPatchTime s))
         in s\<lparr>pendingPatchTimer := Some (nextTimer s),
              timers := timers s @ [(nextTimer s, delay)],
              nextTimer := nextTimer s + 1\<rparr>))"

text \<open>
  The runtime fires the timer with handle \<open>h\<close>, if it is still to fire, and runs the
  callback \<open>schedulePatch\<close> gave it.
\<close>

definition timerFires :: "dispatcher_env \<Rightarrow> nat \<Rightarrow> reply_state \<Rightarrow> reply_state" where
  "timerFires env h s =
     (if h \<notin> set (map fst (timers s)) then s
      else
        (let s1 = s\<lparr>timers := filter (\<lambda>(h', d). h' \<noteq> h) (timers s), pendingPatchTimer := None\<rparr>
         in if \<not> streamingFailed s1 then patchCard env False s1 else s1))"

definition clearPendingPatch :: "reply_state \<Rightarrow> reply_state" where
  "clearPendingPatch s =
     (case pendingPatchTimer s of
        None \<Rightarrow> s
      | Some h \<Rightarrow> s\<lparr>timers := filter (\<lambda>(h', d). h' \<noteq> h) (timers s), pendingPatchTimer := None\<rparr>)"

text \<open>
  \<open>if (!thinkingStartedAt) thinkingStartedAt = Date.now()\<close>: 0 is falsy as well. One
  clock reading \<open>now\<close> stands for the readings of one synchronous run of a callback.
  (\<open>collapseThinking\<close> is never called in the module and is not part of the model.)
\<close>

definition startThinkingClock :: "int \<Rightarrow> int option \<Rightarrow> int option" where
  "startThinkingClock now started =
     (case started of None \<Rightarrow> Some now | Some t \<Rightarrow> (if t = 0 then Some now else Some t))"

definition triggerThinkingUpdate :: "dispatcher_env \<Rightarrow> int \<Rightarrow> reply_state \<Rightarrow> reply_state" where
  "triggerThinkingUpdate env now s =
     (if thinkingStopped s then s
      else
        (let s1 = s\<lparr>hasThinkingContent := True,
                     thinkingStartedAt := startThinkingClock now (thinkingStartedAt s)\<rparr>
         in if now - lastPatchTime s1 \<ge> DEFAULT_THINKING_UPDATE_INTERVAL_MS
            then patchCard env False s1
            else schedulePatch env now s1))"

section \<open>reply-dispatcher.ts: final delivery\<close>

fun sendChunks :: "dispatcher_env \<Rightarrow> jsstring list \<Rightarrow> reply_state \<Rightarrow> outcome \<times> reply_state" where
  "sendChunks env [] s = (Returned, s)"
| "sendChunks env (chunk # chunks) s =
     (case network env (length (netCalls s)) of
        Resolved messageId t \<Rightarrow> sendChunks env chunks (s\<lparr>netCalls := netCalls s @ [SendText chunk]\<rparr>)
      | Rejected \<Rightarrow> (Threw, s\<lparr>netCalls := netCalls s @ [SendText chunk]\<rparr>))"

definition deliverStandalone :: "dispatcher_env \<Rightarrow> jsstring \<Rightarrow> reply_state \<Rightarrow> outcome \<times> reply_state" where
  "deliverStandalone env text s =
     (case network env (length (netCalls s)) of
        Resolved messageId t \<Rightarrow> (Returned, s\<lparr>netCalls := netCalls s @ [StandaloneCard text]\<rparr>)
      | Rejected \<Rightarrow>
          sendChunks env (plainChunks env text) (s\<lparr>netCalls := netCalls s @ [StandaloneCard text]\<rparr>))"

definition doDeliverFinalReply :: "dispatcher_env \<Rightarrow> reply_state \<Rightarrow> outcome \<times> reply_state" where
  "doDeliverFinalReply env s =
     (let fullText = accumulatedText s in
      if trim fullText = [] then (Returned, s)
      else if truthy (cardMessageId s) then
        (let s1 = s\<lparr>thinkingStopped := True\<rparr>;
             s2 = s1\<lparr>netCalls := netCalls s1 @ [FinalUpdate (the (cardMessageId s1)) fullText]\<rparr>
         in case network env (length (netCalls s1)) of
              Resolved messageId t \<Rightarrow> (Returned, s2)
            | Rejected \<Rightarrow>
                (if \<not> standaloneDelivered s2
                 then deliverStandalone env fullText (s2\<lparr>standaloneDelivered := True\<rparr>)
                 else (Returned, s2)))
      else if \<not> standaloneDelivered s
        then deliverStandalone env fullText (s\<lparr>standaloneDelivered := True\<rparr>)
      else (Returned, s))"

section \<open>reply-dispatcher.ts: the callbacks handed to the agent runtime\<close>

text \<open>
  The body of \<open>deliver\<close> for a text that is not blank, up to the test of the kind:
  thinking is collapsed on the first reply content and the text is appended to
  \<open>accumulatedText\<close>, after a newline when neither side brings one.
\<close>

definition accumulate :: "jsstring \<Rightarrow> reply_state \<Rightarrow> reply_state" where
  "accumulate text s =
     (let s1 = (if \<not> thinkingStopped s
                then clearPendingPatch (s\<lparr>thinkingStopped := True\<rparr>) else s);
          s2 = (if accumulatedText s1 \<noteq> [] \<and> \<not> endsWith (accumulatedText s1) NL
                   \<and> \<not> startsWith text NL
                then s1\<lparr>accumulatedText := accumulatedText s1 @ NL\<rparr> else s1)
      in s2\<lparr>accumulatedText := accumulatedText s2 @ text\<rparr>)"

text \<open>
  \<open>dispatcherOptions.deliver(payload, info)\<close> with \<open>payload.text\<close> and \<open>info.kind\<close>, each
  possibly absent.
\<close>

definition deliver :: "dispatcher_env \<Rightarrow> jsstring option \<Rightarrow> jsstring option \<Rightarrow> reply_state \<Rightarrow> outcome \<times> reply_state" where
  "deliver env payload_text info_kind s =
     (let kind = (case info_kind of None \<Rightarrow> js ''final'' | Some k \<Rightarrow> k);
          text = (case payload_text of None \<Rightarrow> [] | Some t \<Rightarrow> t)
      in if trim text = [] then (Returned, s)
         else
           (let s' = accumulate text s
            in if kind = js ''final'' then doDeliverFinalReply env s' else (Returned, s')))"

definition onError :: "reply_state \<Rightarrow> reply_state" where
  "onError s = clearPendingPatch s"

definition onIdle :: "dispatcher_env \<Rightarrow> reply_state \<Rightarrow> reply_state" where
  "onIdle env s =
     (let s1 = (clearPendingPatch s)\<lparr>thinkingStopped := True\<rparr>
      in if trim (accumulatedText s1) \<noteq> [] then snd (doDeliverFinalReply env s1) else s1)"

text \<open>\<open>replyOptions.onReasoningStream(payload)\<close> with \<open>payload.text\<close>.\<close>

definition onReasoningStream :: "dispatcher_env \<Rightarrow> jsstring option \<Rightarrow> int \<Rightarrow> reply_state \<Rightarrow> reply_state" where
  "onReasoningStream env payload_text now s =
     (if truthy payload_text
      then triggerThinkingUpdate env now (s\<lparr>thinkingText := payload_text\<rparr>)
      else s)"

text \<open>
  The fields \<open>onAgentEvent\<close> reads; \<open>None\<close> stands for a field that is absent or not of
  the type the callback tests for.
\<close>

record agent_event =
  ev_stream :: "jsstring option"
  ev_phase :: "jsstring option"
  ev_toolCallId :: "jsstring option"
  ev_name :: "jsstring option"
  ev_args :: "(jsstring \<times> jsstring) list option"
  ev_isError :: bool

definition or_empty :: "jsstring option \<Rightarrow> jsstring" where
  "or_empty v = (case v of None \<Rightarrow> [] | Some t \<Rightarrow> t)"

definition onAgentEvent :: "dispatcher_env \<Rightarrow> agent_event \<Rightarrow> int \<Rightarrow> reply_state \<Rightarrow> reply_state" where
  "onAgentEvent env evt now s =
     (if ev_stream evt = Some (js ''tool'') then
        (let phase = or_empty (ev_phase evt);
             toolCallId = or_empty (ev_toolCallId evt);
             name = or_empty (ev_name evt)
         in if phase = js ''start'' \<and> toolCallId \<noteq> [] then
              triggerThinkingUpdate env now
                (s\<lparr>activeTools := map_set (activeTools s) toolCallId
                      \<lparr>tool_name = name, tool_args = ev_args evt, startedAt = now\<rparr>\<rparr>)
            else if phase = js ''result'' \<and> toolCallId \<noteq> [] then
              (case map_get (activeTools s) toolCallId of
                 Some entry \<Rightarrow>
                   triggerThinkingUpdate env now
                     (s\<lparr>activeTools := map_delete (activeTools s) toolCallId,
                        completedTools := completedTools s @
                          [\<lparr>tool_name = tool_name entry, tool_args = tool_args entry,
                            startedAt = startedAt entry, failed = ev_isError evt\<rparr>]\<rparr>)
               | None \<Rightarrow> triggerThinkingUpdate env now s)
            else s)
      else s)"

definition markDispatchIdle :: "dispatcher_env \<Rightarrow> reply_state \<Rightarrow> reply_state" where
  "markDispatchIdle env s =
     (let s1 = clearPendingPatch s
      in if \<not> thinkingStopped s1 then
           (let s2 = s1\<lparr>thinkingStopped := True\<rparr>
            in if truthy (cardMessageId s2) \<and> hasThinkingContent s2
               then patchCard env False s2 else s2)
         else s1)"

text \<open>Everything that can happen to one reply, and a run of such steps.\<close>

datatype reply_op =
    Deliver "jsstring option" "jsstring option"
  | OnError
  | OnIdle
  | ReasoningStream "jsstring option" int
  | AgentEvent agent_event int
  | MarkDispatchIdle
  | TimerFires nat
  | Settles nat

fun reply_step :: "dispatcher_env \<Rightarrow> reply_state \<Rightarrow> reply_op \<Rightarrow> reply_state" where
  "reply_step env s (Deliver payload_text info_kind) = snd (deliver env payload_text info_kind s)"
| "reply_step env s OnError = onError s"
| "reply_step env s OnIdle = onIdle env s"
| "reply_step env s (ReasoningStream payload_text now) = onReasoningStream env payload_text now s"
| "reply_step env s (AgentEvent evt now) = onAgentEvent env evt now s"
| "reply_step env s MarkDispatchIdle = markDispatchIdle env s"
| "reply_step env s (TimerFires h) = timerFires env h s"
| "reply_step env s (Settles n) = settles env n s"

definition reply_run :: "dispatcher_env \<Rightarrow> reply_op list \<Rightarrow> reply_state \<Rightarrow> reply_state" where
  "reply_run env ops s = foldl (reply_step env) s ops"

section \<open>Notions used to state the properties of a reply\<close>

text \<open>
  The calls of the fallback path (\<open>deliverStandalone\<close>), and the call with which every
  invocation of \<open>deliverStandalone\<close> starts.
\<close>

fun is_fallback :: "net_call \<Rightarrow> bool" where
  "is_fallback (StandaloneCard text) = True"
| "is_fallback (SendText chunk) = True"
| "is_fallback _ = False"

fun is_standalone_card :: "net_call \<Rightarrow> bool" where
  "is_standalone_card (StandaloneCard text) = True"
| "is_standalone_card _ = False"

definition standalone_deliveries :: "net_call list \<Rightarrow> nat" where
  "standalone_deliveries cs = length (filter is_standalone_card cs)"

text \<open>The calls a step added: those of \<open>s'\<close> after the calls \<open>s\<close> already had.\<close>

definition new_calls :: "reply_state \<Rightarrow> reply_state \<Rightarrow> net_call list" where
  "new_calls s s' = drop (length (netCalls s)) (netCalls s')"

text \<open>
  The calls issued by the chunk loop and by one standalone delivery when the reply has
  issued \<open>n\<close> calls before.
\<close>

fun chunk_calls :: "dispatcher_env \<Rightarrow> jsstring list \<Rightarrow> nat \<Rightarrow> net_call list" where
  "chunk_calls env [] n = []"
| "chunk_calls env (chunk # chunks) n =
     SendText chunk #
       (case network env n of
          Resolved messageId t \<Rightarrow> chunk_calls env chunks (Suc n)
        | Rejected \<Rightarrow> [])"

definition standalone_calls :: "dispatcher_env \<Rightarrow> jsstring \<Rightarrow> nat \<Rightarrow> net_call list" where
  "standalone_calls env text n =
     StandaloneCard text #
       (case network env n of
          Resolved messageId t \<Rightarrow> []
        | Rejected \<Rightarrow> chunk_calls env (plainChunks env text) (Suc n))"

text \<open>
  The join rule in the words of the specification: the fragments in order, with a newline
  between two consecutive ones exactly when the text so far does not end with a newline
  and the next fragment does not start with one.
\<close>

definition join_fragment :: "jsstring \<Rightarrow> jsstring \<Rightarrow> jsstring" where
  "join_fragment acc text =
     (if \<not> endsWith acc NL \<and> \<not> startsWith text NL then acc @ NL @ text else acc @ text)"

fun joinFragments_spec :: "jsstring list \<Rightarrow> jsstring" where
  "joinFragments_spec [] = []"
| "joinFragments_spec (f # fs) = foldl join_fragment f fs"

text \<open>The texts handed to \<open>deliver\<close> in a run, in order (\<open>payload.text ?? ""\<close>).\<close>

fun delivered_texts :: "reply_op list \<Rightarrow> jsstring list" where
  "delivered_texts [] = []"
| "delivered_texts (Deliver payload_text info_kind # ops) = or_empty payload_text # delivered_texts ops"
| "delivered_texts (op # ops) = delivered_texts ops"

definition non_blank :: "jsstring \<Rightarrow> bool" where
  "non_blank t = (trim t \<noteq> [])"

text \<open>The pending timer of the dispatcher is the only timer of the reply still to fire.\<close>

definition one_timer :: "reply_state \<Rightarrow> bool" where
  "one_timer s =
     (map fst (timers s) = (case pendingPatchTimer s of None \<Rightarrow> [] | Some h \<Rightarrow> [h]))"

text \<open>
  The guard of the standalone delivery: no standalone delivery was issued while
  \<open>standaloneDelivered\<close> is unset, and at most one since it was set.
\<close>

definition guarded :: "reply_state \<Rightarrow> bool" where
  "guarded s = (standalone_deliveries (netCalls s) \<le> (if standaloneDelivered s then 1 else 0))"




section \<open>Concrete inputs of the monitor\<close>

text \<open>States, events and traces at which the theorems below are instantiated.\<close>

definition ev_a :: message_event where
  "ev_a = \<lparr>message_id = Some (js ''om_a''), content = js ''hello''\<rparr>"

definition ev_b :: message_event where
  "ev_b = \<lparr>message_id = Some (js ''om_b''), content = js ''again''\<rparr>"

definition s_live :: monitor_state where
  "s_live = snd (monitorWebSocket monitor_init)"

definition ops_between :: "monitor_op list" where
  "ops_between = [Receive 1 ev_b 1000, Receive 1 ev_a 2000, StartMonitor]"

definition s_full :: monitor_state where
  "s_full = \<lparr>activeSessionId = 1,
             processedMessages = map (\<lambda>i. (js ''old_'' @ [i], 0)) [0..<200],
             forwarded = []\<rparr>"

definition ev_old :: message_event where
  "ev_old = \<lparr>message_id = Some (js ''old_'' @ [7]), content = js ''old''\<rparr>"

section \<open>Concrete inputs of the reply dispatcher\<close>

text \<open>
  Four networks: one on which every call resolves, one on which every call is rejected,
  one on which only the first call of the reply resolves, and one on which only the first
  call is rejected.
\<close>

definition env_ok :: dispatcher_env where
  "env_ok = \<lparr>feishuCfg = None, plainChunks = (\<lambda>t. [t]),
             network = (\<lambda>n. Resolved (js ''om_card'') 6000)\<rparr>"

definition env_down :: dispatcher_env where
  "env_down = \<lparr>feishuCfg = None, plainChunks = (\<lambda>t. [t]), network = (\<lambda>n. Rejected)\<rparr>"

definition env_first_only :: dispatcher_env where
  "env_first_only = \<lparr>feishuCfg = None, plainChunks = (\<lambda>t. [t]),
             network = (\<lambda>n. if n = 0 then Resolved (js ''om_card'') 6000 else Rejected)\<rparr>"


text \<open>A reply whose card exists (one reasoning snapshot has been rendered).\<close>

definition s_card :: reply_state where
  "s_card = reply_run env_first_only [ReasoningStream (Some (js ''A'')) 5000, Settles 0] reply_init"

text \<open>A reply that has a card and has received a first block of answer text.\<close>

definition s_answered :: reply_state where
  "s_answered =
     reply_run env_ok
       [ReasoningStream (Some (js ''A'')) 5000, Settles 0,
        Deliver (Some (js ''X'')) (Some (js ''block''))]
       reply_init"



text \<open>A reply with a patch timer pending: the card was patched 100 ms ago.\<close>

definition s_pending :: reply_state where
  "s_pending =
     reply_run env_ok
       [ReasoningStream (Some (js ''A'')) 5000, Settles 0, ReasoningStream (Some (js ''AB'')) 6100]
       reply_init"

text \<open>A reply that was delivered standalone.\<close>

definition s_standalone :: reply_state where
  "s_standalone = reply_run env_ok [Deliver (Some (js ''X'')) None] reply_init"

text \<open>A reply whose card creation was rejected and that has a patch timer pending.\<close>

definition s_failed_pending :: reply_state where
  "s_failed_pending =
     reply_run env_down
       [ReasoningStream (Some (js ''A'')) 100, TimerFires 0, Settles 0,
        ReasoningStream (Some (js ''B'')) 200]
       reply_init"


text \<open>Three reasoning snapshots in quick succession.\<close>

definition ops_reasoning :: "reply_op list" where
  "ops_reasoning =
     [ReasoningStream (Some (js ''A'')) 5000, Settles 0,
      ReasoningStream (Some (js ''AB'')) 6100, ReasoningStream (Some (js ''ABC'')) 6200]"

text \<open>A card is created for a reasoning snapshot, then two final texts arrive.\<close>

definition ops_two_finals :: "reply_op list" where
  "ops_two_finals =
     [ReasoningStream (Some (js ''A'')) 5000, Settles 0,
      Deliver (Some (js ''X'')) None, Deliver (Some (js ''Y'')) None]"









section \<open>Properties of the monitor\<close>

lemma js_incr_mono: "n \<le> js_incr n"
  by (simp add: js_incr_def)

lemma js_incr_strict: "n < 2 ^ 53 \<Longrightarrow> n < js_incr n"
  by (simp add: js_incr_def)

lemma receive_handler_activeSessionId [simp]:
  "activeSessionId (receive_handler sid ev now s) = activeSessionId s"
  by (simp add: receive_handler_def Let_def)

lemma monitor_step_activeSessionId_mono:
  "activeSessionId s \<le> activeSessionId (monitor_step s op)"
  by (cases op) (simp_all add: monitorWebSocket_def stopFeishuMonitor_def Let_def js_incr_mono)

lemma monitor_run_activeSessionId_mono:
  "activeSessionId s \<le> activeSessionId (monitor_run ops s)"
proof (induction ops arbitrary: s)
  case Nil
  show ?case by (simp add: monitor_run_def)
next
  case (Cons op ops)
  have "activeSessionId s \<le> activeSessionId (monitor_step s op)"
    by (rule monitor_step_activeSessionId_mono)
  also have "\<dots> \<le> activeSessionId (monitor_run ops (monitor_step s op))"
    by (rule Cons.IH)
  finally show ?case by (simp add: monitor_run_def)
qed

lemma stale_handler_noop:
  "mySessionId \<noteq> activeSessionId s \<Longrightarrow> receive_handler mySessionId ev now s = s"
  by (simp add: receive_handler_def)

text \<open>
  Claim C3. Once \<open>activeSessionId\<close> has advanced past the generation a handler captured,
  every later invocation of that handler returns the state as it found it, whatever
  happened in between (further starts, stops and deliveries on any connection): the dedup
  map and the sequence of forwarded calls are untouched.
\<close>

theorem retired_handler_is_noop:
  assumes "mySessionId < activeSessionId s"
  shows "receive_handler mySessionId ev now (monitor_run ops s) = monitor_run ops s"
proof -
  have "activeSessionId s \<le> activeSessionId (monitor_run ops s)"
    by (rule monitor_run_activeSessionId_mono)
  with assms have "mySessionId \<noteq> activeSessionId (monitor_run ops s)" by simp
  then show ?thesis by (rule stale_handler_noop)
qed

theorem retired_handler_is_noop_witness:
  "fst (monitorWebSocket monitor_init)
     < activeSessionId (snd (monitorWebSocket (snd (monitorWebSocket monitor_init))))
   \<and> receive_handler (fst (monitorWebSocket monitor_init)) ev_a 10
        (monitor_run [Receive 2 ev_b 5, StopMonitor]
           (snd (monitorWebSocket (snd (monitorWebSocket monitor_init)))))
      = monitor_run [Receive 2 ev_b 5, StopMonitor]
           (snd (monitorWebSocket (snd (monitorWebSocket monitor_init))))"
proof -
  have h: "fst (monitorWebSocket monitor_init)
     < activeSessionId (snd (monitorWebSocket (snd (monitorWebSocket monitor_init))))"
    by (simp add: monitorWebSocket_def monitor_init_def js_incr_def Let_def)
  show ?thesis
    using h retired_handler_is_noop [OF h] by (rule conjI)
qed

lemma start_and_stop_retire_handlers:
  assumes "mySessionId \<le> activeSessionId s" and "activeSessionId s < 2 ^ 53"
  shows "mySessionId < activeSessionId (snd (monitorWebSocket s))"
    and "mySessionId < activeSessionId (stopFeishuMonitor s)"
    and "fst (monitorWebSocket s) = activeSessionId (snd (monitorWebSocket s))"
  using assms by (simp_all add: monitorWebSocket_def stopFeishuMonitor_def Let_def js_incr_def)

lemma map_set_fresh: "\<not> map_has m k \<Longrightarrow> map_set m k v = m @ [(k, v)]"
  by (induction m) (auto simp: map_has_def)

lemma map_has_mem: "(k, v) \<in> set m \<Longrightarrow> map_has m k"
  by (force simp: map_has_def)

lemma prune_keeps:
  "(k, t) \<in> set m \<Longrightarrow> now - t \<le> DEDUP_TTL_MS \<Longrightarrow> (k, t) \<in> set (pruneProcessedMessages now m)"
  by (simp add: pruneProcessedMessages_def)

lemma receive_keeps_entry:
  assumes "(m, t1) \<in> set (processedMessages s)" and "now - t1 \<le> DEDUP_TTL_MS"
  shows "(m, t1) \<in> set (processedMessages (receive_handler sid ev now s))"
  using assms
  by (auto simp: receive_handler_def Let_def map_set_fresh prune_keeps)

lemma receive_forwarded_for_seen:
  assumes "map_has (processedMessages s) m" and "m \<noteq> []"
  shows "forwarded_for m (receive_handler sid ev now s) = forwarded_for m s"
  using assms
  by (cases "message_id ev") (auto simp: receive_handler_def Let_def forwarded_for_def)

lemma step_keeps_entry:
  assumes "(m, t1) \<in> set (processedMessages s)" and "within_ttl t1 op"
  shows "(m, t1) \<in> set (processedMessages (monitor_step s op))"
  using assms
  by (cases op) (simp_all add: monitorWebSocket_def stopFeishuMonitor_def Let_def receive_keeps_entry)

lemma step_forwarded_for_seen:
  assumes "map_has (processedMessages s) m" and "m \<noteq> []"
  shows "forwarded_for m (monitor_step s op) = forwarded_for m s"
proof (cases op)
  case (Receive sid ev now)
  then show ?thesis using assms by (simp add: receive_forwarded_for_seen)
qed (simp_all add: monitorWebSocket_def stopFeishuMonitor_def Let_def forwarded_for_def)

lemma run_keeps_entry:
  assumes "(m, t1) \<in> set (processedMessages s)" and "\<forall>op \<in> set ops. within_ttl t1 op"
    and "m \<noteq> []"
  shows "(m, t1) \<in> set (processedMessages (monitor_run ops s))
       \<and> forwarded_for m (monitor_run ops s) = forwarded_for m s"
  using assms
proof (induction ops arbitrary: s)
  case Nil
  then show ?case by (simp add: monitor_run_def)
next
  case (Cons op ops)
  have e: "(m, t1) \<in> set (processedMessages (monitor_step s op))"
    using Cons.prems by (simp add: step_keeps_entry)
  have f: "forwarded_for m (monitor_step s op) = forwarded_for m s"
    using Cons.prems by (blast intro: step_forwarded_for_seen map_has_mem)
  from Cons.IH [OF e] Cons.prems(2,3) f show ?case
    by (simp add: monitor_run_def)
qed

lemma first_delivery:
  assumes "mySessionId = activeSessionId s" and "message_id ev = Some m" and "m \<noteq> []"
    and "\<not> map_has (processedMessages s) m"
  shows "(m, now) \<in> set (processedMessages (receive_handler mySessionId ev now s))"
    and "forwarded (receive_handler mySessionId ev now s) = forwarded s @ [ev]"
  using assms
  by (auto simp: receive_handler_def Let_def map_set_fresh pruneProcessedMessages_def DEDUP_TTL_MS_def)

lemma duplicate_delivery:
  assumes "message_id ev = Some m" and "m \<noteq> []" and "map_has (processedMessages s) m"
  shows "receive_handler sid ev now s = s"
  using assms by (simp add: receive_handler_def)

lemma monitor_run_append: "monitor_run (xs @ ys) s = monitor_run ys (monitor_run xs s)"
  by (simp add: monitor_run_def)

text \<open>
  Claim C1. An event with a non-empty message identifier \<open>m\<close>, not yet in the dedup map,
  is delivered to a live handler at time \<open>t1\<close>. The delivery records \<open>m\<close> in the map;
  after any trace whose clock readings stay within the 60-minute TTL of \<open>t1\<close>, a second
  delivery of \<open>m\<close> (to any handler, at any time) returns without forwarding; and over the
  whole run exactly one call for \<open>m\<close> was added to the calls of \<open>handleFeishuMessage\<close>.
\<close>

theorem duplicate_delivery_forwarded_once:
  assumes live: "mySessionId = activeSessionId s"
    and id1: "message_id ev1 = Some m" and id2: "message_id ev2 = Some m" and ne: "m \<noteq> []"
    and fresh: "\<not> map_has (processedMessages s) m"
    and window: "\<forall>op \<in> set ops. within_ttl t1 op"
  shows "map_has (processedMessages (receive_handler mySessionId ev1 t1 s)) m
       \<and> receive_handler sid2 ev2 t2 (monitor_run ops (receive_handler mySessionId ev1 t1 s))
           = monitor_run ops (receive_handler mySessionId ev1 t1 s)
       \<and> forwarded_for m (monitor_run (Receive mySessionId ev1 t1 # ops @ [Receive sid2 ev2 t2]) s)
           = forwarded_for m s @ [ev1]"
proof -
  let ?s1 = "receive_handler mySessionId ev1 t1 s"
  let ?s2 = "monitor_run ops ?s1"
  have e1: "(m, t1) \<in> set (processedMessages ?s1)"
    using live id1 ne fresh by (rule first_delivery(1))
  have f1: "forwarded ?s1 = forwarded s @ [ev1]"
    using live id1 ne fresh by (rule first_delivery(2))
  have inv: "(m, t1) \<in> set (processedMessages ?s2) \<and> forwarded_for m ?s2 = forwarded_for m ?s1"
    using e1 window ne by (rule run_keeps_entry)
  have seen: "map_has (processedMessages ?s2) m"
    using inv by (blast intro: map_has_mem)
  have dup: "receive_handler sid2 ev2 t2 ?s2 = ?s2"
    using id2 ne seen by (rule duplicate_delivery)
  have "monitor_run (Receive mySessionId ev1 t1 # ops @ [Receive sid2 ev2 t2]) s
        = receive_handler sid2 ev2 t2 ?s2"
    by (simp add: monitor_run_def)
  with dup inv f1 id1 have "forwarded_for m (monitor_run (Receive mySessionId ev1 t1 # ops @ [Receive sid2 ev2 t2]) s)
        = forwarded_for m s @ [ev1]"
    by (simp add: forwarded_for_def)
  with e1 dup show ?thesis by (blast intro: map_has_mem)
qed


theorem duplicate_delivery_forwarded_once_witness:
  "map_has (processedMessages (receive_handler 1 ev_a 0 s_live)) (js ''om_a'')
   \<and> receive_handler 2 ev_a 3600000 (monitor_run ops_between (receive_handler 1 ev_a 0 s_live))
       = monitor_run ops_between (receive_handler 1 ev_a 0 s_live)
   \<and> forwarded_for (js ''om_a'')
        (monitor_run (Receive 1 ev_a 0 # ops_between @ [Receive 2 ev_a 3600000]) s_live)
       = forwarded_for (js ''om_a'') s_live @ [ev_a]"
proof -
  have live: "1 = activeSessionId s_live"
    by (simp add: s_live_def monitorWebSocket_def monitor_init_def js_incr_def Let_def)
  have id: "message_id ev_a = Some (js ''om_a'')" by (simp add: ev_a_def)
  have ne: "js ''om_a'' \<noteq> []" by (simp add: js_def)
  have fresh: "\<not> map_has (processedMessages s_live) (js ''om_a'')"
    by (simp add: s_live_def monitorWebSocket_def monitor_init_def Let_def map_has_def)
  have window: "\<forall>op \<in> set ops_between. within_ttl 0 op"
    by (simp add: ops_between_def DEDUP_TTL_MS_def)
  show ?thesis
    by (rule duplicate_delivery_forwarded_once [OF live id id ne fresh window])
qed

lemma distinct_keys_step:
  assumes "distinct (map fst (processedMessages s))"
  shows "distinct (map fst (processedMessages (monitor_step s op)))"
proof (cases op)
  case (Receive sid ev now)
  then show ?thesis using assms
    by (auto simp: receive_handler_def Let_def map_set_fresh pruneProcessedMessages_def
        map_has_def distinct_map_filter)
qed (simp_all add: assms monitorWebSocket_def stopFeishuMonitor_def Let_def)

lemma receive_skips_cache:
  assumes "sid \<noteq> activeSessionId s \<or> \<not> truthy (message_id e)
           \<or> map_has (processedMessages s) (the (message_id e))"
  shows "processedMessages (receive_handler sid e t s) = processedMessages s"
  using assms by (auto simp: receive_handler_def Let_def)

lemma receive_inserts:
  assumes "mySessionId = activeSessionId s" and "message_id ev = Some m" and "m \<noteq> []"
    and "\<not> map_has (processedMessages s) m"
  shows "processedMessages (receive_handler mySessionId ev now s) =
     (if map_size (processedMessages s) + 1 > 200
      then filter (\<lambda>(id, ts). now - ts \<le> DEDUP_TTL_MS) (processedMessages s @ [(m, now)])
      else processedMessages s @ [(m, now)])"
proof -
  have "(\<lambda>(id::jsstring, ts). \<not> DEDUP_TTL_MS < now - ts) = (\<lambda>(id, ts). now - ts \<le> DEDUP_TTL_MS)"
    by (auto simp: fun_eq_iff)
  then show ?thesis using assms
    by (simp add: receive_handler_def Let_def map_set_fresh map_size_def pruneProcessedMessages_def)
qed

text \<open>
  Claim C9. Inserting a fresh identifier on a live connection appends it to the map and,
  exactly when the map then holds more than 200 entries, removes in the same step every
  entry older than the TTL; starting or stopping a monitor, a stale handler, an event
  without identifier and a duplicate leave the map as it is. Consequently, when the map
  already holds 200 entries and every entry of an identifier \<open>k\<close> is older than the TTL,
  the insertion removes \<open>k\<close>, and the next delivery of \<open>k\<close> is forwarded again.
\<close>

theorem dedup_pruning_is_lazy:
  assumes live: "mySessionId = activeSessionId s"
    and id: "message_id ev = Some m" and ne: "m \<noteq> []"
    and fresh: "\<not> map_has (processedMessages s) m"
  shows "processedMessages (receive_handler mySessionId ev now s) =
           (if map_size (processedMessages s) + 1 > 200
            then filter (\<lambda>(id, ts). now - ts \<le> DEDUP_TTL_MS) (processedMessages s @ [(m, now)])
            else processedMessages s @ [(m, now)])
       \<and> processedMessages (monitor_step s StartMonitor) = processedMessages s
       \<and> processedMessages (monitor_step s StopMonitor) = processedMessages s
       \<and> (\<forall>sid e t. sid \<noteq> activeSessionId s \<or> \<not> truthy (message_id e)
              \<or> map_has (processedMessages s) (the (message_id e))
            \<longrightarrow> processedMessages (receive_handler sid e t s) = processedMessages s)
       \<and> (\<forall>k evk t2. 200 \<le> map_size (processedMessages s) \<and> map_has (processedMessages s) k
              \<and> (\<forall>(id, ts) \<in> set (processedMessages s). id = k \<longrightarrow> now - ts > DEDUP_TTL_MS)
              \<and> message_id evk = Some k \<and> k \<noteq> []
            \<longrightarrow> \<not> map_has (processedMessages (receive_handler mySessionId ev now s)) k
              \<and> forwarded (receive_handler mySessionId evk t2 (receive_handler mySessionId ev now s))
                  = forwarded (receive_handler mySessionId ev now s) @ [evk])"
proof -
  let ?s' = "receive_handler mySessionId ev now s"
  have ins: "processedMessages ?s' =
           (if map_size (processedMessages s) + 1 > 200
            then filter (\<lambda>(id, ts). now - ts \<le> DEDUP_TTL_MS) (processedMessages s @ [(m, now)])
            else processedMessages s @ [(m, now)])"
    using assms by (rule receive_inserts)
  have other: "\<forall>sid e t. sid \<noteq> activeSessionId s \<or> \<not> truthy (message_id e)
              \<or> map_has (processedMessages s) (the (message_id e))
            \<longrightarrow> processedMessages (receive_handler sid e t s) = processedMessages s"
    by (blast intro: receive_skips_cache)
  have expired: "\<not> map_has (processedMessages ?s') k
              \<and> forwarded (receive_handler mySessionId evk t2 ?s') = forwarded ?s' @ [evk]"
    if big: "200 \<le> map_size (processedMessages s)" and seen: "map_has (processedMessages s) k"
      and old: "\<forall>(id, ts) \<in> set (processedMessages s). id = k \<longrightarrow> now - ts > DEDUP_TTL_MS"
      and idk: "message_id evk = Some k" and nek: "k \<noteq> []"
    for k evk t2
  proof -
    have km: "k \<noteq> m" using seen fresh by auto
    have gone: "\<not> map_has (processedMessages ?s') k"
      using big old km by (auto simp: ins map_has_def)
    have "mySessionId = activeSessionId ?s'" using live by simp
    then have "forwarded (receive_handler mySessionId evk t2 ?s') = forwarded ?s' @ [evk]"
      using idk nek gone by (rule first_delivery(2))
    with gone show ?thesis by simp
  qed
  then have exp: "\<forall>k evk t2. 200 \<le> map_size (processedMessages s) \<and> map_has (processedMessages s) k
              \<and> (\<forall>(id, ts) \<in> set (processedMessages s). id = k \<longrightarrow> now - ts > DEDUP_TTL_MS)
              \<and> message_id evk = Some k \<and> k \<noteq> []
            \<longrightarrow> \<not> map_has (processedMessages ?s') k
              \<and> forwarded (receive_handler mySessionId evk t2 ?s') = forwarded ?s' @ [evk]"
    by blast
  have start: "processedMessages (monitor_step s StartMonitor) = processedMessages s"
    by (simp add: monitorWebSocket_def Let_def)
  have stop: "processedMessages (monitor_step s StopMonitor) = processedMessages s"
    by (simp add: stopFeishuMonitor_def)
  show ?thesis
    by (rule conjI [OF ins conjI [OF start conjI [OF stop conjI [OF other exp]]]])
qed

theorem dedup_pruning_is_lazy_witness:
  "processedMessages (receive_handler 1 ev_a 3600001 s_full) = [(js ''om_a'', 3600001)]
   \<and> \<not> map_has (processedMessages (receive_handler 1 ev_a 3600001 s_full)) (js ''old_'' @ [7])
   \<and> forwarded (receive_handler 1 ev_old 3600002 (receive_handler 1 ev_a 3600001 s_full))
       = forwarded (receive_handler 1 ev_a 3600001 s_full) @ [ev_old]"
proof -
  have live: "1 = activeSessionId s_full" by (simp add: s_full_def)
  have id: "message_id ev_a = Some (js ''om_a'')" by (simp add: ev_a_def)
  have ne: "js ''om_a'' \<noteq> []" by (simp add: js_def)
  have fresh: "\<not> map_has (processedMessages s_full) (js ''om_a'')"
    by (auto simp: s_full_def map_has_def js_def)
  note all = dedup_pruning_is_lazy [OF live id ne fresh, of 3600001]
  have ins: "processedMessages (receive_handler 1 ev_a 3600001 s_full) =
           (if map_size (processedMessages s_full) + 1 > 200
            then filter (\<lambda>(id, ts). 3600001 - ts \<le> DEDUP_TTL_MS) (processedMessages s_full @ [(js ''om_a'', 3600001)])
            else processedMessages s_full @ [(js ''om_a'', 3600001)])"
    using all by (rule conjunct1)
  have val: "(if map_size (processedMessages s_full) + 1 > 200
            then filter (\<lambda>(id, ts). 3600001 - ts \<le> DEDUP_TTL_MS) (processedMessages s_full @ [(js ''om_a'', 3600001)])
            else processedMessages s_full @ [(js ''om_a'', 3600001)]) = [(js ''om_a'', 3600001)]"
    by (simp add: s_full_def map_size_def DEDUP_TTL_MS_def filter_map o_def)
  have prem: "200 \<le> map_size (processedMessages s_full) \<and> map_has (processedMessages s_full) (js ''old_'' @ [7])
              \<and> (\<forall>(id, ts) \<in> set (processedMessages s_full). id = js ''old_'' @ [7] \<longrightarrow> 3600001 - ts > DEDUP_TTL_MS)
              \<and> message_id ev_old = Some (js ''old_'' @ [7]) \<and> js ''old_'' @ [7] \<noteq> []"
    by (auto simp: s_full_def map_size_def map_has_def DEDUP_TTL_MS_def ev_old_def js_def)
  have "\<not> map_has (processedMessages (receive_handler 1 ev_a 3600001 s_full)) (js ''old_'' @ [7])
     \<and> forwarded (receive_handler 1 ev_old 3600002 (receive_handler 1 ev_a 3600001 s_full))
       = forwarded (receive_handler 1 ev_a 3600001 s_full) @ [ev_old]"
    using all prem by blast
  with ins val show ?thesis by simp
qed

section \<open>The table pattern\<close>

lemma match_here_Once:
  "match_here (Once k # r) t \<longleftrightarrow> (\<exists>c t'. t = c # t' \<and> in_class k c \<and> match_here r t')"
  by (cases t) auto

lemma match_here_Many:
  "match_here (Many k # r) t \<longleftrightarrow>
     (\<exists>cs t'. t = cs @ t' \<and> cs \<noteq> [] \<and> (\<forall>c \<in> set cs. in_class k c) \<and> match_here r t')"
proof
  show "match_here (Many k # r) t \<Longrightarrow>
     \<exists>cs t'. t = cs @ t' \<and> cs \<noteq> [] \<and> (\<forall>c \<in> set cs. in_class k c) \<and> match_here r t'"
  proof (induction t)
    case Nil
    then show ?case by simp
  next
    case (Cons c t)
    then have k: "in_class k c" by simp
    from Cons.prems have "match_here (Many k # r) t \<or> match_here r t" by simp
    then show ?case
    proof
      assume "match_here (Many k # r) t"
      then obtain cs t' where "t = cs @ t'" "cs \<noteq> []" "\<forall>c \<in> set cs. in_class k c" "match_here r t'"
        using Cons.IH by blast
      then have "c # t = (c # cs) @ t' \<and> c # cs \<noteq> [] \<and> (\<forall>x \<in> set (c # cs). in_class k x) \<and> match_here r t'"
        using k by simp
      then show ?thesis by blast
    next
      assume "match_here r t"
      then have "c # t = [c] @ t \<and> [c] \<noteq> [] \<and> (\<forall>x \<in> set [c]. in_class k x) \<and> match_here r t"
        using k by simp
      then show ?thesis by blast
    qed
  qed
next
  assume "\<exists>cs t'. t = cs @ t' \<and> cs \<noteq> [] \<and> (\<forall>c \<in> set cs. in_class k c) \<and> match_here r t'"
  then obtain cs t' where t: "t = cs @ t'" and ne: "cs \<noteq> []"
    and all: "\<forall>c \<in> set cs. in_class k c" and m: "match_here r t'"
    by blast
  from ne all have "match_here (Many k # r) (cs @ t')"
  proof (induction cs)
    case Nil
    then show ?case by simp
  next
    case (Cons c cs)
    show ?case
    proof (cases "cs = []")
      case True
      then show ?thesis using Cons.prems m by simp
    next
      case False
      then have "match_here (Many k # r) (cs @ t')" using Cons by simp
      then show ?thesis using Cons.prems by simp
    qed
  qed
  then show "match_here (Many k # r) t" by (simp add: t)
qed

lemma match_here_ManyI:
  "cs \<noteq> [] \<Longrightarrow> \<forall>c \<in> set cs. in_class k c \<Longrightarrow> match_here r t'
   \<Longrightarrow> match_here (Many k # r) (cs @ t')"
  unfolding match_here_Many by blast

lemma regex_test_iff: "regex_test r t \<longleftrightarrow> (\<exists>pre t'. t = pre @ t' \<and> match_here r t')"
proof (induction t)
  case Nil
  show ?case by simp
next
  case (Cons c t)
  show ?case
  proof
    assume "regex_test r (c # t)"
    then have "match_here r (c # t) \<or> regex_test r t" by simp
    then show "\<exists>pre t'. c # t = pre @ t' \<and> match_here r t'"
    proof
      assume "match_here r (c # t)"
      then have "c # t = [] @ (c # t) \<and> match_here r (c # t)" by simp
      then show ?thesis by blast
    next
      assume "regex_test r t"
      then obtain pre t' where "t = pre @ t'" "match_here r t'" using Cons.IH by blast
      then have "c # t = (c # pre) @ t' \<and> match_here r t'" by simp
      then show ?thesis by blast
    qed
  next
    assume "\<exists>pre t'. c # t = pre @ t' \<and> match_here r t'"
    then obtain pre t' where e: "c # t = pre @ t'" and m: "match_here r t'" by blast
    show "regex_test r (c # t)"
    proof (cases pre)
      case Nil
      then have "match_here r (c # t)" using e m by simp
      then show ?thesis by simp
    next
      case (Cons p pre')
      then have "t = pre' @ t'" using e by simp
      then have "regex_test r t" using m Cons.IH by blast
      then show ?thesis by simp
    qed
  qed
qed

text \<open>The matcher decides the textual reading of the regular expression.\<close>

lemma hasMarkdownTable_iff:
  "hasMarkdownTable t \<longleftrightarrow>
     (\<exists>pre header breaks dashes post.
        t = pre @ [124] @ header @ [124] @ breaks @ [124] @ dashes @ [124] @ post
        \<and> header \<noteq> [] \<and> (\<forall>c \<in> set header. c \<notin> set [10, 13, 8232, 8233])
        \<and> breaks \<noteq> [] \<and> (\<forall>c \<in> set breaks. c \<in> set [13, 10])
        \<and> dashes \<noteq> [] \<and> (\<forall>c \<in> set dashes. c \<in> set [45, 58, 124, 32]))"
  (is "?L \<longleftrightarrow> ?R")
proof
  assume ?L
  then obtain pre t0 where t: "t = pre @ t0" and m: "match_here table_regex t0"
    by (auto simp: hasMarkdownTable_def regex_test_iff)
  from m obtain c1 t1 where s1: "t0 = c1 # t1" "c1 = 124"
    and m1: "match_here [Many (NotIn [10, 13, 8232, 8233]), Once (In [124]), Many (In [13, 10]),
               Once (In [124]), Many (In [45, 58, 124, 32]), Once (In [124])] t1"
    unfolding table_regex_def match_here_Once by auto
  from m1 obtain header t2 where s2: "t1 = header @ t2" "header \<noteq> []"
      "\<forall>c \<in> set header. c \<notin> set [10, 13, 8232, 8233]"
    and m2: "match_here [Once (In [124]), Many (In [13, 10]),
               Once (In [124]), Many (In [45, 58, 124, 32]), Once (In [124])] t2"
    unfolding match_here_Many [of "NotIn [10, 13, 8232, 8233]"] by (auto simp del: set_simps)
  from m2 obtain c3 t3 where s3: "t2 = c3 # t3" "c3 = 124"
    and m3: "match_here [Many (In [13, 10]), Once (In [124]), Many (In [45, 58, 124, 32]),
               Once (In [124])] t3"
    unfolding match_here_Once by auto
  from m3 obtain breaks t4 where s4: "t3 = breaks @ t4" "breaks \<noteq> []"
      "\<forall>c \<in> set breaks. c \<in> set [13, 10]"
    and m4: "match_here [Once (In [124]), Many (In [45, 58, 124, 32]), Once (In [124])] t4"
    unfolding match_here_Many [of "In [13, 10]"] by (auto simp del: set_simps)
  from m4 obtain c5 t5 where s5: "t4 = c5 # t5" "c5 = 124"
    and m5: "match_here [Many (In [45, 58, 124, 32]), Once (In [124])] t5"
    unfolding match_here_Once by auto
  from m5 obtain dashes t6 where s6: "t5 = dashes @ t6" "dashes \<noteq> []"
      "\<forall>c \<in> set dashes. c \<in> set [45, 58, 124, 32]"
    and m6: "match_here [Once (In [124])] t6"
    unfolding match_here_Many [of "In [45, 58, 124, 32]"] by (auto simp del: set_simps)
  from m6 obtain c7 post where s7: "t6 = c7 # post" "c7 = 124"
    unfolding match_here_Once by auto
  have "t = pre @ [124] @ header @ [124] @ breaks @ [124] @ dashes @ [124] @ post"
    using t s1 s2(1) s3 s4(1) s5 s6(1) s7 by simp
  with s2(2,3) s4(2,3) s6(2,3) show ?R by blast
next
  assume ?R
  then obtain pre header breaks dashes post where
    t: "t = pre @ [124] @ header @ [124] @ breaks @ [124] @ dashes @ [124] @ post"
    and h: "header \<noteq> []" "\<forall>c \<in> set header. c \<notin> set [10, 13, 8232, 8233]"
    and b: "breaks \<noteq> []" "\<forall>c \<in> set breaks. c \<in> set [13, 10]"
    and d: "dashes \<noteq> []" "\<forall>c \<in> set dashes. c \<in> set [45, 58, 124, 32]"
    by blast
  have 1: "match_here [Once (In [124])] ([124] @ post)" by simp
  have 2: "match_here [Many (In [45, 58, 124, 32]), Once (In [124])] (dashes @ [124] @ post)"
    using d 1 by (intro match_here_ManyI) (simp_all del: set_simps)
  have 3: "match_here [Once (In [124]), Many (In [45, 58, 124, 32]), Once (In [124])]
      ([124] @ dashes @ [124] @ post)"
    using 2 by simp
  have 4: "match_here [Many (In [13, 10]), Once (In [124]), Many (In [45, 58, 124, 32]), Once (In [124])]
      (breaks @ [124] @ dashes @ [124] @ post)"
    using b 3 by (intro match_here_ManyI) (simp_all del: set_simps)
  have 5: "match_here [Once (In [124]), Many (In [13, 10]), Once (In [124]), Many (In [45, 58, 124, 32]), Once (In [124])]
      ([124] @ breaks @ [124] @ dashes @ [124] @ post)"
    using 4 by simp
  have 6: "match_here [Many (NotIn [10, 13, 8232, 8233]), Once (In [124]), Many (In [13, 10]), Once (In [124]), Many (In [45, 58, 124, 32]), Once (In [124])]
      (header @ [124] @ breaks @ [124] @ dashes @ [124] @ post)"
    using h 5 by (intro match_here_ManyI) (simp_all del: set_simps)
  have "match_here table_regex ([124] @ header @ [124] @ breaks @ [124] @ dashes @ [124] @ post)"
    using 6 by (simp add: table_regex_def)
  then show ?L
    unfolding hasMarkdownTable_def regex_test_iff t by blast
qed

section \<open>Properties of the reply dispatcher\<close>

lemma trim_empty_iff: "trim t = [] \<longleftrightarrow> (\<forall>c \<in> set t. js_whitespace c)"
proof -
  have "trim t = [] \<longleftrightarrow> dropWhile js_whitespace (rev (dropWhile js_whitespace t)) = []"
    by (simp add: trim_def)
  also have "\<dots> \<longleftrightarrow> (\<forall>c \<in> set (dropWhile js_whitespace t). js_whitespace c)"
    by (simp add: dropWhile_eq_Nil_conv)
  also have "\<dots> \<longleftrightarrow> dropWhile js_whitespace t = []"
  proof
    assume a: "\<forall>c \<in> set (dropWhile js_whitespace t). js_whitespace c"
    show "dropWhile js_whitespace t = []"
    proof (rule ccontr)
      assume "dropWhile js_whitespace t \<noteq> []"
      then have "\<not> js_whitespace (hd (dropWhile js_whitespace t))"
        by (rule hd_dropWhile)
      moreover have "hd (dropWhile js_whitespace t) \<in> set (dropWhile js_whitespace t)"
        using \<open>dropWhile js_whitespace t \<noteq> []\<close> by simp
      ultimately show False using a by blast
    qed
  qed (auto dest: set_dropWhileD)
  also have "\<dots> \<longleftrightarrow> (\<forall>c \<in> set t. js_whitespace c)"
    by (simp add: dropWhile_eq_Nil_conv)
  finally show ?thesis .
qed

lemma deliver_blank:
  "trim (case payload_text of None \<Rightarrow> [] | Some t \<Rightarrow> t) = [] \<Longrightarrow>
   deliver env payload_text info_kind s = (Returned, s)"
  by (simp add: deliver_def Let_def)



lemma regex_test_prepend: "regex_test r t \<Longrightarrow> regex_test r (u @ t)"
  by (induction u) auto



lemma patchCard_final_not_suppressed:
  assumes "\<not> streamingFailed s"
  shows "patchCard env True s =
     (case cardCreationPromise s of
        Some p \<Rightarrow> s\<lparr>waiting := waiting s @ [(p, True)]\<rparr>
      | None \<Rightarrow> patch_send True s)"
  using assms by (simp add: patchCard_def)

lemma onReasoningStream_stopped:
  "thinkingStopped s \<Longrightarrow> t \<noteq> [] \<Longrightarrow>
   onReasoningStream env (Some t) now s = s\<lparr>thinkingText := Some t\<rparr>"
  by (simp add: onReasoningStream_def triggerThinkingUpdate_def)

lemma schedulePatch_pending: "pendingPatchTimer s \<noteq> None \<Longrightarrow> schedulePatch env now s = s"
  by (simp add: schedulePatch_def)

subsection \<open>What each function leaves alone\<close>

lemma patch_failed_frame [simp]:
  "accumulatedText (patch_failed s) = accumulatedText s"
  "pendingPatchTimer (patch_failed s) = pendingPatchTimer s"
  "timers (patch_failed s) = timers s"
  "nextTimer (patch_failed s) = nextTimer s"
  "thinkingStopped (patch_failed s) = thinkingStopped s"
  "thinkingText (patch_failed s) = thinkingText s"
  "hasThinkingContent (patch_failed s) = hasThinkingContent s"
  "thinkingStartedAt (patch_failed s) = thinkingStartedAt s"
  "standaloneDelivered (patch_failed s) = standaloneDelivered s"
  "activeTools (patch_failed s) = activeTools s"
  "completedTools (patch_failed s) = completedTools s"
  "netCalls (patch_failed s) = netCalls s"
  "cardMessageId (patch_failed s) = cardMessageId s"
  "lastPatchTime (patch_failed s) = lastPatchTime s"
  "creating (patch_failed s) = creating s"
  "updating (patch_failed s) = updating s"
  "waiting (patch_failed s) = waiting s"
  "cardCreationPromise (patch_failed s) = None"
  by (simp_all add: patch_failed_def Let_def)

lemma patch_send_frame [simp]:
  "accumulatedText (patch_send f s) = accumulatedText s"
  "pendingPatchTimer (patch_send f s) = pendingPatchTimer s"
  "timers (patch_send f s) = timers s"
  "nextTimer (patch_send f s) = nextTimer s"
  "thinkingStopped (patch_send f s) = thinkingStopped s"
  "thinkingText (patch_send f s) = thinkingText s"
  "hasThinkingContent (patch_send f s) = hasThinkingContent s"
  "thinkingStartedAt (patch_send f s) = thinkingStartedAt s"
  "standaloneDelivered (patch_send f s) = standaloneDelivered s"
  "activeTools (patch_send f s) = activeTools s"
  "completedTools (patch_send f s) = completedTools s"
  "cardMessageId (patch_send f s) = cardMessageId s"
  "lastPatchTime (patch_send f s) = lastPatchTime s"
  "streamingFailed (patch_send f s) = streamingFailed s"
  "waiting (patch_send f s) = waiting s"
  by (simp_all add: patch_send_def Let_def)

lemma resume_frame [simp]:
  "accumulatedText (foldl (\<lambda>s' (p, f). patch_send f s') s ws) = accumulatedText s"
  "pendingPatchTimer (foldl (\<lambda>s' (p, f). patch_send f s') s ws) = pendingPatchTimer s"
  "timers (foldl (\<lambda>s' (p, f). patch_send f s') s ws) = timers s"
  "nextTimer (foldl (\<lambda>s' (p, f). patch_send f s') s ws) = nextTimer s"
  "thinkingStopped (foldl (\<lambda>s' (p, f). patch_send f s') s ws) = thinkingStopped s"
  "thinkingText (foldl (\<lambda>s' (p, f). patch_send f s') s ws) = thinkingText s"
  "hasThinkingContent (foldl (\<lambda>s' (p, f). patch_send f s') s ws) = hasThinkingContent s"
  "thinkingStartedAt (foldl (\<lambda>s' (p, f). patch_send f s') s ws) = thinkingStartedAt s"
  "standaloneDelivered (foldl (\<lambda>s' (p, f). patch_send f s') s ws) = standaloneDelivered s"
  "activeTools (foldl (\<lambda>s' (p, f). patch_send f s') s ws) = activeTools s"
  "completedTools (foldl (\<lambda>s' (p, f). patch_send f s') s ws) = completedTools s"
  "cardMessageId (foldl (\<lambda>s' (p, f). patch_send f s') s ws) = cardMessageId s"
  "lastPatchTime (foldl (\<lambda>s' (p, f). patch_send f s') s ws) = lastPatchTime s"
  "streamingFailed (foldl (\<lambda>s' (p, f). patch_send f s') s ws) = streamingFailed s"
  "waiting (foldl (\<lambda>s' (p, f). patch_send f s') s ws) = waiting s"
  by (induction ws arbitrary: s; simp add: split_def)+

lemma patchCard_frame [simp]:
  "accumulatedText (patchCard env f s) = accumulatedText s"
  "pendingPatchTimer (patchCard env f s) = pendingPatchTimer s"
  "timers (patchCard env f s) = timers s"
  "nextTimer (patchCard env f s) = nextTimer s"
  "thinkingStopped (patchCard env f s) = thinkingStopped s"
  "thinkingText (patchCard env f s) = thinkingText s"
  "hasThinkingContent (patchCard env f s) = hasThinkingContent s"
  "thinkingStartedAt (patchCard env f s) = thinkingStartedAt s"
  "standaloneDelivered (patchCard env f s) = standaloneDelivered s"
  "activeTools (patchCard env f s) = activeTools s"
  "completedTools (patchCard env f s) = completedTools s"
  "cardMessageId (patchCard env f s) = cardMessageId s"
  "lastPatchTime (patchCard env f s) = lastPatchTime s"
  "streamingFailed (patchCard env f s) = streamingFailed s"
  by (simp_all add: patchCard_def split: option.splits)

lemma settles_frame [simp]:
  "accumulatedText (settles env n s) = accumulatedText s"
  "pendingPatchTimer (settles env n s) = pendingPatchTimer s"
  "timers (settles env n s) = timers s"
  "nextTimer (settles env n s) = nextTimer s"
  "thinkingStopped (settles env n s) = thinkingStopped s"
  "thinkingText (settles env n s) = thinkingText s"
  "hasThinkingContent (settles env n s) = hasThinkingContent s"
  "thinkingStartedAt (settles env n s) = thinkingStartedAt s"
  "standaloneDelivered (settles env n s) = standaloneDelivered s"
  "activeTools (settles env n s) = activeTools s"
  "completedTools (settles env n s) = completedTools s"
  by (simp_all add: settles_def Let_def split: net_result.splits)

lemma schedulePatch_frame [simp]:
  "accumulatedText (schedulePatch env now s) = accumulatedText s"
  "thinkingStopped (schedulePatch env now s) = thinkingStopped s"
  "thinkingText (schedulePatch env now s) = thinkingText s"
  "hasThinkingContent (schedulePatch env now s) = hasThinkingContent s"
  "thinkingStartedAt (schedulePatch env now s) = thinkingStartedAt s"
  "standaloneDelivered (schedulePatch env now s) = standaloneDelivered s"
  "activeTools (schedulePatch env now s) = activeTools s"
  "completedTools (schedulePatch env now s) = completedTools s"
  "netCalls (schedulePatch env now s) = netCalls s"
  "cardMessageId (schedulePatch env now s) = cardMessageId s"
  "lastPatchTime (schedulePatch env now s) = lastPatchTime s"
  "streamingFailed (schedulePatch env now s) = streamingFailed s"
  "cardCreationPromise (schedulePatch env now s) = cardCreationPromise s"
  "creating (schedulePatch env now s) = creating s"
  "updating (schedulePatch env now s) = updating s"
  "waiting (schedulePatch env now s) = waiting s"
  by (simp_all add: schedulePatch_def Let_def)

lemma clearPendingPatch_frame [simp]:
  "accumulatedText (clearPendingPatch s) = accumulatedText s"
  "thinkingStopped (clearPendingPatch s) = thinkingStopped s"
  "thinkingText (clearPendingPatch s) = thinkingText s"
  "hasThinkingContent (clearPendingPatch s) = hasThinkingContent s"
  "thinkingStartedAt (clearPendingPatch s) = thinkingStartedAt s"
  "standaloneDelivered (clearPendingPatch s) = standaloneDelivered s"
  "activeTools (clearPendingPatch s) = activeTools s"
  "completedTools (clearPendingPatch s) = completedTools s"
  "netCalls (clearPendingPatch s) = netCalls s"
  "cardMessageId (clearPendingPatch s) = cardMessageId s"
  "lastPatchTime (clearPendingPatch s) = lastPatchTime s"
  "streamingFailed (clearPendingPatch s) = streamingFailed s"
  "cardCreationPromise (clearPendingPatch s) = cardCreationPromise s"
  "creating (clearPendingPatch s) = creating s"
  "updating (clearPendingPatch s) = updating s"
  "waiting (clearPendingPatch s) = waiting s"
  "nextTimer (clearPendingPatch s) = nextTimer s"
  "pendingPatchTimer (clearPendingPatch s) = None"
  by (simp_all add: clearPendingPatch_def split: option.splits)

lemma sendChunks_calls:
  "sendChunks env chunks s =
     (fst (sendChunks env chunks s),
      s\<lparr>netCalls := netCalls s @ chunk_calls env chunks (length (netCalls s))\<rparr>)"
proof (induction chunks arbitrary: s)
  case Nil
  show ?case by simp
next
  case (Cons chunk chunks)
  show ?case
  proof (cases "network env (length (netCalls s))")
    case (Resolved messageId t)
    then show ?thesis
      using Cons.IH [of "s\<lparr>netCalls := netCalls s @ [SendText chunk]\<rparr>"]
      by (simp add: prod_eq_iff)
  next
    case Rejected
    then show ?thesis by simp
  qed
qed

lemma deliverStandalone_calls:
  "snd (deliverStandalone env text s) =
     s\<lparr>netCalls := netCalls s @ standalone_calls env text (length (netCalls s))\<rparr>"
proof (cases "network env (length (netCalls s))")
  case (Resolved messageId t)
  then show ?thesis by (simp add: deliverStandalone_def standalone_calls_def)
next
  case Rejected
  then show ?thesis
    using sendChunks_calls [of env "plainChunks env text" "s\<lparr>netCalls := netCalls s @ [StandaloneCard text]\<rparr>"]
    by (simp add: deliverStandalone_def standalone_calls_def prod_eq_iff)
qed


lemma chunk_calls_no_card: "filter is_standalone_card (chunk_calls env chunks n) = []"
  by (induction chunks arbitrary: n) (auto split: net_result.splits)


lemma standalone_calls_one_card:
  "filter is_standalone_card (standalone_calls env text n) = [StandaloneCard text]"
  by (simp add: standalone_calls_def chunk_calls_no_card split: net_result.splits)

text \<open>\<open>doDeliverFinalReply\<close> as one state update.\<close>

lemma doDeliverFinalReply_state:
  "snd (doDeliverFinalReply env s) =
     (if trim (accumulatedText s) = [] then s
      else if truthy (cardMessageId s) then
        (case network env (length (netCalls s)) of
           Resolved messageId t \<Rightarrow>
             s\<lparr>thinkingStopped := True,
               netCalls := netCalls s @ [FinalUpdate (the (cardMessageId s)) (accumulatedText s)]\<rparr>
         | Rejected \<Rightarrow>
             (if standaloneDelivered s
              then s\<lparr>thinkingStopped := True,
                     netCalls := netCalls s @ [FinalUpdate (the (cardMessageId s)) (accumulatedText s)]\<rparr>
              else s\<lparr>thinkingStopped := True, standaloneDelivered := True,
                     netCalls := netCalls s @ FinalUpdate (the (cardMessageId s)) (accumulatedText s)
                       # standalone_calls env (accumulatedText s) (Suc (length (netCalls s)))\<rparr>))
      else if standaloneDelivered s then s
      else s\<lparr>standaloneDelivered := True,
             netCalls := netCalls s @ standalone_calls env (accumulatedText s) (length (netCalls s))\<rparr>)"
  by (simp add: doDeliverFinalReply_def Let_def deliverStandalone_calls split: net_result.splits)

lemma doDeliverFinalReply_frame [simp]:
  "accumulatedText (snd (doDeliverFinalReply env s)) = accumulatedText s"
  "pendingPatchTimer (snd (doDeliverFinalReply env s)) = pendingPatchTimer s"
  "timers (snd (doDeliverFinalReply env s)) = timers s"
  "nextTimer (snd (doDeliverFinalReply env s)) = nextTimer s"
  "thinkingText (snd (doDeliverFinalReply env s)) = thinkingText s"
  "hasThinkingContent (snd (doDeliverFinalReply env s)) = hasThinkingContent s"
  "thinkingStartedAt (snd (doDeliverFinalReply env s)) = thinkingStartedAt s"
  "activeTools (snd (doDeliverFinalReply env s)) = activeTools s"
  "completedTools (snd (doDeliverFinalReply env s)) = completedTools s"
  "cardMessageId (snd (doDeliverFinalReply env s)) = cardMessageId s"
  "lastPatchTime (snd (doDeliverFinalReply env s)) = lastPatchTime s"
  "streamingFailed (snd (doDeliverFinalReply env s)) = streamingFailed s"
  "cardCreationPromise (snd (doDeliverFinalReply env s)) = cardCreationPromise s"
  "creating (snd (doDeliverFinalReply env s)) = creating s"
  "updating (snd (doDeliverFinalReply env s)) = updating s"
  "waiting (snd (doDeliverFinalReply env s)) = waiting s"
  by (simp_all add: doDeliverFinalReply_state split: net_result.splits)

lemma triggerThinkingUpdate_frame [simp]:
  "accumulatedText (triggerThinkingUpdate env now s) = accumulatedText s"
  "thinkingStopped (triggerThinkingUpdate env now s) = thinkingStopped s"
  "thinkingText (triggerThinkingUpdate env now s) = thinkingText s"
  "standaloneDelivered (triggerThinkingUpdate env now s) = standaloneDelivered s"
  "activeTools (triggerThinkingUpdate env now s) = activeTools s"
  "completedTools (triggerThinkingUpdate env now s) = completedTools s"
  "cardMessageId (triggerThinkingUpdate env now s) = cardMessageId s"
  "lastPatchTime (triggerThinkingUpdate env now s) = lastPatchTime s"
  "streamingFailed (triggerThinkingUpdate env now s) = streamingFailed s"
  by (simp_all add: triggerThinkingUpdate_def Let_def)

lemma accumulate_frame [simp]:
  "thinkingStopped (accumulate text s) = True"
  "thinkingText (accumulate text s) = thinkingText s"
  "hasThinkingContent (accumulate text s) = hasThinkingContent s"
  "thinkingStartedAt (accumulate text s) = thinkingStartedAt s"
  "standaloneDelivered (accumulate text s) = standaloneDelivered s"
  "activeTools (accumulate text s) = activeTools s"
  "completedTools (accumulate text s) = completedTools s"
  "netCalls (accumulate text s) = netCalls s"
  "cardMessageId (accumulate text s) = cardMessageId s"
  "lastPatchTime (accumulate text s) = lastPatchTime s"
  "streamingFailed (accumulate text s) = streamingFailed s"
  "nextTimer (accumulate text s) = nextTimer s"
  "cardCreationPromise (accumulate text s) = cardCreationPromise s"
  "creating (accumulate text s) = creating s"
  "updating (accumulate text s) = updating s"
  "waiting (accumulate text s) = waiting s"
  by (simp_all add: accumulate_def Let_def)

lemma accumulate_text:
  "accumulatedText (accumulate text s) =
     (if accumulatedText s \<noteq> [] \<and> \<not> endsWith (accumulatedText s) NL \<and> \<not> startsWith text NL
      then accumulatedText s @ NL @ text else accumulatedText s @ text)"
  by (simp add: accumulate_def Let_def)

lemma deliver_state:
  "snd (deliver env payload_text info_kind s) =
     (if trim (or_empty payload_text) = [] then s
      else if info_kind = None \<or> info_kind = Some (js ''final'')
        then snd (doDeliverFinalReply env (accumulate (or_empty payload_text) s))
      else accumulate (or_empty payload_text) s)"
  by (cases info_kind) (simp_all add: deliver_def Let_def or_empty_def)

subsection \<open>The flags only ever go up\<close>

lemma patchCard_after_failure: "streamingFailed s \<Longrightarrow> patchCard env f s = s"
  by (simp add: patchCard_def)




lemma thinkingStopped_doDeliver:
  "thinkingStopped s \<Longrightarrow> thinkingStopped (snd (doDeliverFinalReply env s))"
  by (simp add: doDeliverFinalReply_state split: net_result.splits)

lemma reply_step_thinkingStopped_mono:
  "thinkingStopped s \<Longrightarrow> thinkingStopped (reply_step env s op)"
proof (cases op)
  case (Deliver payload_text info_kind)
  assume "thinkingStopped s"
  then show ?thesis using Deliver by (simp add: deliver_state thinkingStopped_doDeliver)
next
  case (AgentEvent evt now)
  assume "thinkingStopped s"
  then show ?thesis using AgentEvent
    by (simp add: onAgentEvent_def Let_def split: option.splits)
qed (simp_all add: onError_def onIdle_def onReasoningStream_def markDispatchIdle_def
      timerFires_def Let_def thinkingStopped_doDeliver)

lemma reply_run_thinkingStopped_mono:
  "thinkingStopped s \<Longrightarrow> thinkingStopped (reply_run env ops s)"
proof (induction ops arbitrary: s)
  case Nil
  then show ?case by (simp add: reply_run_def)
next
  case (Cons op ops)
  have "thinkingStopped (reply_step env s op)"
    using Cons.prems by (rule reply_step_thinkingStopped_mono)
  then have "thinkingStopped (reply_run env ops (reply_step env s op))"
    by (rule Cons.IH)
  then show ?case by (simp add: reply_run_def)
qed

subsection \<open>After a failed creation only the fallback path issues calls\<close>

lemma patchCard_netCalls_after_failure:
  "streamingFailed s \<Longrightarrow> netCalls (patchCard env f s) = netCalls s"
  by (simp add: patchCard_after_failure)







subsection \<open>At most one timer\<close>

lemma one_timer_patchCard [simp]: "one_timer (patchCard env f s) = one_timer s"
  by (simp add: one_timer_def)

lemma one_timer_settles [simp]: "one_timer (settles env n s) = one_timer s"
  by (simp add: one_timer_def)

lemma one_timer_doDeliver [simp]: "one_timer (snd (doDeliverFinalReply env s)) = one_timer s"
  by (simp add: one_timer_def)

lemma one_timer_schedulePatch: "one_timer s \<Longrightarrow> one_timer (schedulePatch env now s)"
  by (auto simp: one_timer_def schedulePatch_def Let_def split: option.splits)

lemma one_timer_clearPendingPatch: "one_timer s \<Longrightarrow> one_timer (clearPendingPatch s)"
  by (auto simp: one_timer_def clearPendingPatch_def split: option.splits)

lemma one_timer_update [simp]:
  "one_timer (s\<lparr>thinkingStopped := a\<rparr>) = one_timer s"
  "one_timer (s\<lparr>thinkingText := b\<rparr>) = one_timer s"
  "one_timer (s\<lparr>accumulatedText := c\<rparr>) = one_timer s"
  "one_timer (s\<lparr>activeTools := d\<rparr>) = one_timer s"
  "one_timer (s\<lparr>completedTools := e\<rparr>) = one_timer s"
  "one_timer (s\<lparr>hasThinkingContent := g\<rparr>) = one_timer s"
  "one_timer (s\<lparr>thinkingStartedAt := h\<rparr>) = one_timer s"
  by (simp_all add: one_timer_def)

lemma one_timer_accumulate: "one_timer s \<Longrightarrow> one_timer (accumulate text s)"
  by (simp add: accumulate_def Let_def one_timer_clearPendingPatch)

lemma one_timer_trigger: "one_timer s \<Longrightarrow> one_timer (triggerThinkingUpdate env now s)"
  by (simp add: triggerThinkingUpdate_def Let_def one_timer_schedulePatch)

lemma one_timer_timerFires: "one_timer s \<Longrightarrow> one_timer (timerFires env h s)"
  by (auto simp: timerFires_def Let_def one_timer_def split: option.splits)

lemma reply_step_one_timer: "one_timer s \<Longrightarrow> one_timer (reply_step env s op)"
proof (cases op)
  case (Deliver payload_text info_kind)
  assume "one_timer s"
  then show ?thesis using Deliver
    by (simp add: deliver_state one_timer_accumulate)
next
  case (AgentEvent evt now)
  assume "one_timer s"
  then show ?thesis using AgentEvent
    by (simp add: onAgentEvent_def Let_def one_timer_trigger split: option.splits)
qed (simp_all add: onError_def onIdle_def onReasoningStream_def markDispatchIdle_def Let_def
      one_timer_clearPendingPatch one_timer_trigger one_timer_timerFires)

lemma reply_run_one_timer: "one_timer s \<Longrightarrow> one_timer (reply_run env ops s)"
proof (induction ops arbitrary: s)
  case Nil
  then show ?case by (simp add: reply_run_def)
next
  case (Cons op ops)
  have "one_timer (reply_step env s op)" using Cons.prems by (rule reply_step_one_timer)
  then have "one_timer (reply_run env ops (reply_step env s op))" by (rule Cons.IH)
  then show ?case by (simp add: reply_run_def)
qed

lemma one_timer_length: "one_timer s \<Longrightarrow> length (timers s) \<le> 1"
proof -
  assume "one_timer s"
  then have "length (map fst (timers s)) \<le> 1"
    by (simp add: one_timer_def split: option.splits)
  then show ?thesis by simp
qed

subsection \<open>Standalone delivery happens at most once\<close>

lemma patch_send_standalone [simp]:
  "filter is_standalone_card (netCalls (patch_send f s)) = filter is_standalone_card (netCalls s)"
  by (simp add: patch_send_def Let_def)

lemma resume_standalone [simp]:
  "filter is_standalone_card (netCalls (foldl (\<lambda>s' (p, f). patch_send f s') s ws))
     = filter is_standalone_card (netCalls s)"
  by (induction ws arbitrary: s) (simp_all add: split_def)

lemma patchCard_standalone [simp]:
  "filter is_standalone_card (netCalls (patchCard env f s)) = filter is_standalone_card (netCalls s)"
  by (simp add: patchCard_def split: option.splits)

lemma settles_standalone [simp]:
  "filter is_standalone_card (netCalls (settles env n s)) = filter is_standalone_card (netCalls s)"
  by (simp add: settles_def Let_def split: net_result.splits)

lemma trigger_standalone [simp]:
  "filter is_standalone_card (netCalls (triggerThinkingUpdate env now s))
     = filter is_standalone_card (netCalls s)"
  by (simp add: triggerThinkingUpdate_def Let_def)

lemma standalone_deliveries_append [simp]:
  "standalone_deliveries (xs @ ys) = standalone_deliveries xs + standalone_deliveries ys"
  by (simp add: standalone_deliveries_def)

lemma doDeliver_calls_append:
  "netCalls (snd (doDeliverFinalReply env s))
     = netCalls s @ new_calls s (snd (doDeliverFinalReply env s))"
  by (simp add: new_calls_def doDeliverFinalReply_state split: net_result.splits)

lemma doDeliver_guard_set:
  assumes "standaloneDelivered s"
  shows "standaloneDelivered (snd (doDeliverFinalReply env s))"
    and "standalone_deliveries (new_calls s (snd (doDeliverFinalReply env s))) = 0"
  using assms
  by (simp_all add: new_calls_def standalone_deliveries_def doDeliverFinalReply_state
      split: net_result.splits)

lemma doDeliver_guard_unset:
  assumes "\<not> standaloneDelivered s"
  shows "standalone_deliveries (new_calls s (snd (doDeliverFinalReply env s)))
     = (if standaloneDelivered (snd (doDeliverFinalReply env s)) then 1 else 0)"
  using assms
  by (simp add: new_calls_def standalone_deliveries_def doDeliverFinalReply_state
      standalone_calls_one_card split: net_result.splits)

lemma guarded_doDeliver: "guarded s \<Longrightarrow> guarded (snd (doDeliverFinalReply env s))"
proof -
  assume g: "guarded s"
  let ?s' = "snd (doDeliverFinalReply env s)"
  have n: "standalone_deliveries (netCalls ?s')
      = standalone_deliveries (netCalls s) + standalone_deliveries (new_calls s ?s')"
    using doDeliver_calls_append [of env s] by (metis standalone_deliveries_append)
  show ?thesis
  proof (cases "standaloneDelivered s")
    case True
    then show ?thesis using g n doDeliver_guard_set [of s env] by (simp add: guarded_def)
  next
    case False
    then show ?thesis using g n doDeliver_guard_unset [of s env] by (simp add: guarded_def)
  qed
qed

lemma guarded_patchCard [simp]: "guarded (patchCard env f s) = guarded s"
  by (simp add: guarded_def standalone_deliveries_def)

lemma guarded_settles [simp]: "guarded (settles env n s) = guarded s"
  by (simp add: guarded_def standalone_deliveries_def)

lemma guarded_trigger [simp]: "guarded (triggerThinkingUpdate env now s) = guarded s"
  by (simp add: guarded_def standalone_deliveries_def)

lemma guarded_accumulate [simp]: "guarded (accumulate text s) = guarded s"
  by (simp add: guarded_def)

lemma guarded_clear [simp]: "guarded (clearPendingPatch s) = guarded s"
  by (simp add: guarded_def)

lemma guarded_update [simp]:
  "guarded (s\<lparr>thinkingStopped := a\<rparr>) = guarded s"
  "guarded (s\<lparr>thinkingText := b\<rparr>) = guarded s"
  "guarded (s\<lparr>activeTools := d\<rparr>) = guarded s"
  "guarded (s\<lparr>completedTools := e\<rparr>) = guarded s"
  "guarded (s\<lparr>timers := g\<rparr>) = guarded s"
  "guarded (s\<lparr>pendingPatchTimer := h\<rparr>) = guarded s"
  by (simp_all add: guarded_def)

lemma reply_step_guarded: "guarded s \<Longrightarrow> guarded (reply_step env s op)"
proof (cases op)
  case (Deliver payload_text info_kind)
  assume "guarded s"
  then show ?thesis using Deliver by (simp add: deliver_state guarded_doDeliver)
next
  case (AgentEvent evt now)
  assume "guarded s"
  then show ?thesis using AgentEvent
    by (simp add: onAgentEvent_def Let_def split: option.splits)
qed (simp_all add: onError_def onIdle_def onReasoningStream_def markDispatchIdle_def
      timerFires_def Let_def guarded_doDeliver)

lemma reply_run_guarded: "guarded s \<Longrightarrow> guarded (reply_run env ops s)"
proof (induction ops arbitrary: s)
  case Nil
  then show ?case by (simp add: reply_run_def)
next
  case (Cons op ops)
  have "guarded (reply_step env s op)" using Cons.prems by (rule reply_step_guarded)
  then have "guarded (reply_run env ops (reply_step env s op))" by (rule Cons.IH)
  then show ?case by (simp add: reply_run_def)
qed

lemma new_calls_eq: "netCalls s' = netCalls s @ cs \<Longrightarrow> new_calls s s' = cs"
  by (simp add: new_calls_def)

lemma doDeliver_twice:
  "standalone_deliveries
     (new_calls s (snd (doDeliverFinalReply env (snd (doDeliverFinalReply env s))))) \<le> 1"
proof -
  let ?s1 = "snd (doDeliverFinalReply env s)"
  let ?s2 = "snd (doDeliverFinalReply env ?s1)"
  have "netCalls ?s2 = netCalls s @ (new_calls s ?s1 @ new_calls ?s1 ?s2)"
    using doDeliver_calls_append [of env s] doDeliver_calls_append [of env ?s1] by simp
  then have "new_calls s ?s2 = new_calls s ?s1 @ new_calls ?s1 ?s2"
    by (rule new_calls_eq)
  then have sum: "standalone_deliveries (new_calls s ?s2)
      = standalone_deliveries (new_calls s ?s1) + standalone_deliveries (new_calls ?s1 ?s2)"
    by simp
  show ?thesis
  proof (cases "standaloneDelivered ?s1")
    case True
    have "standalone_deliveries (new_calls s ?s1) \<le> 1"
      using doDeliver_guard_set(2) [of s env] doDeliver_guard_unset [of s env]
      by (cases "standaloneDelivered s") simp_all
    moreover have "standalone_deliveries (new_calls ?s1 ?s2) = 0"
      using True by (rule doDeliver_guard_set(2))
    ultimately show ?thesis using sum by simp
  next
    case False
    then have u: "\<not> standaloneDelivered s"
      using doDeliver_guard_set(1) [of s env] by blast
    have "standalone_deliveries (new_calls s ?s1) = 0"
      using doDeliver_guard_unset [OF u, of env] False by simp
    moreover have "standalone_deliveries (new_calls ?s1 ?s2) \<le> 1"
      using doDeliver_guard_unset [OF False, of env] by simp
    ultimately show ?thesis using sum by simp
  qed
qed

subsection \<open>The accumulated text\<close>

lemma reply_step_text:
  "accumulatedText (reply_step env s op) =
     (case op of
        Deliver payload_text info_kind \<Rightarrow>
          (if trim (or_empty payload_text) = [] then accumulatedText s
           else accumulatedText (accumulate (or_empty payload_text) s))
      | _ \<Rightarrow> accumulatedText s)"
proof (cases op)
  case (AgentEvent evt now)
  then show ?thesis by (simp add: onAgentEvent_def Let_def split: option.splits)
qed (simp_all add: deliver_state onError_def onIdle_def onReasoningStream_def markDispatchIdle_def
      timerFires_def Let_def)

lemma join_fragment_nonempty: "acc \<noteq> [] \<Longrightarrow> join_fragment acc t \<noteq> []"
  by (simp add: join_fragment_def)

lemma foldl_join_nonempty: "f \<noteq> [] \<Longrightarrow> foldl join_fragment f fs \<noteq> []"
  by (induction fs arbitrary: f) (simp_all add: join_fragment_nonempty)

lemma non_blank_nonempty: "non_blank t \<Longrightarrow> t \<noteq> []"
  by (auto simp: non_blank_def trim_def)

lemma joinFragments_nonempty:
  "fs \<noteq> [] \<Longrightarrow> \<forall>f \<in> set fs. non_blank f \<Longrightarrow> joinFragments_spec fs \<noteq> []"
  by (cases fs) (simp_all add: foldl_join_nonempty non_blank_nonempty)

lemma joinFragments_snoc:
  "joinFragments_spec (fs @ [t]) =
     (if fs = [] then t else join_fragment (joinFragments_spec fs) t)"
  by (cases fs) simp_all

lemma delivered_texts_snoc:
  "delivered_texts (ops @ [op]) =
     delivered_texts ops @ (case op of Deliver payload_text info_kind \<Rightarrow> [or_empty payload_text] | _ \<Rightarrow> [])"
  by (induction ops rule: delivered_texts.induct) (simp_all split: reply_op.splits)

lemma reply_run_snoc: "reply_run env (ops @ [op]) s = reply_step env (reply_run env ops s) op"
  by (simp add: reply_run_def)

lemma accumulate_join:
  assumes "acc = accumulatedText s" and "t \<noteq> []"
  shows "accumulatedText (accumulate t s) = (if acc = [] then t else join_fragment acc t)"
  using assms by (simp add: accumulate_text join_fragment_def)

lemma accumulated_text_is_join:
  "accumulatedText (reply_run env ops reply_init)
     = joinFragments_spec (filter non_blank (delivered_texts ops))"
proof (induction ops rule: rev_induct)
  case Nil
  show ?case by (simp add: reply_run_def reply_init_def)
next
  case (snoc op ops)
  let ?fs = "filter non_blank (delivered_texts ops)"
  let ?s = "reply_run env ops reply_init"
  have IH: "accumulatedText ?s = joinFragments_spec ?fs" by (rule snoc.IH)
  show ?case
  proof (cases op)
    case (Deliver payload_text info_kind)
    let ?t = "or_empty payload_text"
    have dt: "delivered_texts (ops @ [op]) = delivered_texts ops @ [?t]"
      using Deliver by (simp add: delivered_texts_snoc)
    show ?thesis
    proof (cases "non_blank ?t")
      case False
      have "accumulatedText (reply_step env ?s op) = accumulatedText ?s"
        using False Deliver reply_step_text [of env ?s op] by (simp add: non_blank_def)
      moreover have "filter non_blank (delivered_texts (ops @ [op])) = ?fs"
        using False dt by simp
      ultimately show ?thesis using IH by (simp only: reply_run_snoc)
    next
      case True
      then have tne: "?t \<noteq> []" by (rule non_blank_nonempty)
      have step: "accumulatedText (reply_step env ?s op) = accumulatedText (accumulate ?t ?s)"
        using True Deliver reply_step_text [of env ?s op] by (simp add: non_blank_def)
      have acc: "accumulatedText (accumulate ?t ?s)
          = (if joinFragments_spec ?fs = [] then ?t else join_fragment (joinFragments_spec ?fs) ?t)"
        using accumulate_join [OF IH [symmetric] tne] .
      have fl: "filter non_blank (delivered_texts (ops @ [op])) = ?fs @ [?t]"
        using True dt by simp
      have emp: "(joinFragments_spec ?fs = []) = (?fs = [])"
      proof
        assume "joinFragments_spec ?fs = []"
        then show "?fs = []"
          using joinFragments_nonempty [of ?fs] by fastforce
      next
        assume "?fs = []"
        then show "joinFragments_spec ?fs = []" by simp
      qed
      have "joinFragments_spec (?fs @ [?t])
          = (if ?fs = [] then ?t else join_fragment (joinFragments_spec ?fs) ?t)"
        by (rule joinFragments_snoc)
      with step acc fl emp show ?thesis by (simp only: reply_run_snoc)
    qed
  next
    case OnError
    then show ?thesis using IH reply_step_text [of env ?s op]
      by (simp add: reply_run_snoc delivered_texts_snoc)
  next
    case OnIdle
    then show ?thesis using IH reply_step_text [of env ?s op]
      by (simp add: reply_run_snoc delivered_texts_snoc)
  next
    case (ReasoningStream x1 x2)
    then show ?thesis using IH reply_step_text [of env ?s op]
      by (simp add: reply_run_snoc delivered_texts_snoc)
  next
    case (AgentEvent x1 x2)
    then show ?thesis using IH reply_step_text [of env ?s op]
      by (simp add: reply_run_snoc delivered_texts_snoc)
  next
    case MarkDispatchIdle
    then show ?thesis using IH reply_step_text [of env ?s op]
      by (simp add: reply_run_snoc delivered_texts_snoc)
  next
    case (TimerFires h)
    then show ?thesis using IH reply_step_text [of env ?s op]
      by (simp add: reply_run_snoc delivered_texts_snoc)
  next
    case (Settles n)
    then show ?thesis using IH reply_step_text [of env ?s op]
      by (simp add: reply_run_snoc delivered_texts_snoc)
  qed
qed




lemmas text_eval = js_def NL_def trim_def js_whitespace_def startsWith_def endsWith_def
  or_empty_def non_blank_def

lemmas reply_eval = reply_run_def reply_init_def deliver_def accumulate_def
  doDeliverFinalReply_def deliverStandalone_def onIdle_def onError_def onReasoningStream_def
  onAgentEvent_def markDispatchIdle_def timerFires_def triggerThinkingUpdate_def
  schedulePatch_def clearPendingPatch_def patchCard_def patch_send_def settles_def patch_failed_def startThinkingClock_def
  patchIntervalMs_def DEFAULT_PATCH_INTERVAL_MS_def DEFAULT_THINKING_UPDATE_INTERVAL_MS_def
  hasMarkdownTable_def table_regex_def Let_def

lemma s_card_value:
  "s_card = reply_init\<lparr>cardMessageId := Some (js ''om_card''), lastPatchTime := 6000,
      thinkingText := Some (js ''A''), hasThinkingContent := True,
      thinkingStartedAt := Some 5000, netCalls := [CardCreate False]\<rparr>"
  by (simp add: s_card_def env_first_only_def reply_eval text_eval)

lemma s_answered_value:
  "s_answered = reply_init\<lparr>cardMessageId := Some (js ''om_card''), accumulatedText := js ''X'',
      lastPatchTime := 6000, thinkingText := Some (js ''A''), thinkingStopped := True,
      hasThinkingContent := True, thinkingStartedAt := Some 5000,
      netCalls := [CardCreate False]\<rparr>"
  by (simp add: s_answered_def env_ok_def reply_eval text_eval)



lemma s_pending_value:
  "s_pending = reply_init\<lparr>cardMessageId := Some (js ''om_card''), lastPatchTime := 6000,
      pendingPatchTimer := Some 0, thinkingText := Some (js ''AB''),
      hasThinkingContent := True, thinkingStartedAt := Some 5000,
      timers := [(0, 400)], nextTimer := 1, netCalls := [CardCreate False]\<rparr>"
  by (simp add: s_pending_def env_ok_def reply_eval text_eval)

lemma s_standalone_value:
  "s_standalone = reply_init\<lparr>accumulatedText := js ''X'', thinkingStopped := True,
      standaloneDelivered := True, netCalls := [StandaloneCard (js ''X'')]\<rparr>"
  by (simp add: s_standalone_def env_ok_def reply_eval text_eval)

text \<open>
  Claim C10. A payload whose text is absent, empty or made of white space only is dropped by
  \<open>deliver\<close>: the call returns and the state of the reply is the one it found (thinking is
  not stopped, the pending timer stays, nothing is appended, nothing is sent).
\<close>

theorem blank_text_is_discarded:
  assumes "\<forall>c \<in> set (or_empty payload_text). js_whitespace c"
  shows "deliver env payload_text info_kind s = (Returned, s)"
proof -
  have "trim (or_empty payload_text) = []"
    using assms by (simp add: trim_empty_iff)
  then show ?thesis by (simp add: deliver_def Let_def or_empty_def)
qed

theorem blank_text_is_discarded_witness:
  "deliver env_ok (Some (js ''  '' @ NL)) None s_pending = (Returned, s_pending)
   \<and> deliver env_ok None None s_pending = (Returned, s_pending)"
proof -
  have a: "\<forall>c \<in> set (or_empty (Some (js ''  '' @ NL))). js_whitespace c"
    by (simp add: or_empty_def js_def NL_def js_whitespace_def)
  have b: "\<forall>c \<in> set (or_empty None). js_whitespace c"
    by (simp add: or_empty_def)
  show ?thesis
    using blank_text_is_discarded [OF a] blank_text_is_discarded [OF b] by (rule conjI)
qed

text \<open>
  Claim C4 as stated does not hold: in a reply whose thinking has been stopped by a first
  block of answer text, a further reasoning snapshot \<open>B\<close> replaces the stored snapshot
  \<open>A\<close>, because \<open>onReasoningStream\<close> assigns \<open>thinkingText\<close> before
  \<open>triggerThinkingUpdate\<close> tests the flag.
\<close>

theorem stopped_reasoning_replaces_snapshot_counterexample:
  "thinkingStopped s_answered
   \<and> thinkingText s_answered = Some (js ''A'')
   \<and> thinkingText (onReasoningStream env_ok (Some (js ''B'')) 9000 s_answered) = Some (js ''B'')
   \<and> thinkingText (onReasoningStream env_ok (Some (js ''B'')) 9000 s_answered)
       \<noteq> thinkingText s_answered"
  by (simp add: s_answered_value env_ok_def reply_eval text_eval)

text \<open>
  Claim C4, amended. Once \<open>thinkingStopped\<close> is set, after any further run,
  \<open>onReasoningStream\<close> with a non-empty text changes \<open>thinkingText\<close> to the new snapshot
  and nothing else: no network call, no timer, and \<open>hasThinkingContent\<close> and
  \<open>thinkingStartedAt\<close> as they were. With an empty or absent text it changes nothing.
\<close>

theorem stopped_reasoning_only_replaces_snapshot:
  assumes "thinkingStopped s"
  shows "onReasoningStream env payload_text now (reply_run env ops s) =
           (if truthy payload_text then (reply_run env ops s)\<lparr>thinkingText := payload_text\<rparr>
            else reply_run env ops s)"
proof -
  have "thinkingStopped (reply_run env ops s)"
    using assms by (rule reply_run_thinkingStopped_mono)
  then show ?thesis by (simp add: onReasoningStream_def triggerThinkingUpdate_def)
qed

theorem stopped_reasoning_only_replaces_snapshot_witness:
  "onReasoningStream env_ok (Some (js ''B'')) 9000 (reply_run env_ok [OnIdle] s_answered)
     = (reply_run env_ok [OnIdle] s_answered)\<lparr>thinkingText := Some (js ''B'')\<rparr>"
proof -
  have h: "thinkingStopped s_answered" by (simp add: s_answered_value)
  have t: "truthy (Some (js ''B''))" by (simp add: js_def)
  show ?thesis
    using stopped_reasoning_only_replaces_snapshot [OF h, of env_ok "Some (js ''B'')" 9000 "[OnIdle]"] t
    by simp
qed

subsection \<open>Once answer text has arrived no patch starts\<close>



lemma new_calls_same [simp]: "netCalls s' = netCalls s \<Longrightarrow> new_calls s s' = []"
  by (simp add: new_calls_def)













subsection \<open>The first creation of the card, in flight and rejected\<close>



















lemma doDeliver_blank:
  "trim (accumulatedText s) = [] \<Longrightarrow> doDeliverFinalReply env s = (Returned, s)"
  by (simp add: doDeliverFinalReply_def)

lemma doDeliver_after_standalone:
  assumes "standaloneDelivered s"
  shows "list_all (\<lambda>c. \<not> is_fallback c) (new_calls s (snd (doDeliverFinalReply env s)))"
  using assms
  by (simp add: new_calls_def doDeliverFinalReply_state split: net_result.splits)

lemma guarded_init: "guarded reply_init"
  by (simp add: guarded_def reply_init_def standalone_deliveries_def)

lemma guarded_at_most_one: "guarded s \<Longrightarrow> standalone_deliveries (netCalls s) \<le> 1"
  by (simp add: guarded_def split: if_splits)

text \<open>
  Claim C6. \<open>doDeliverFinalReply\<close> on a blank accumulated text returns the state as it
  found it. Two calls in a row start at most one standalone delivery between them; once
  \<open>standaloneDelivered\<close> is set a call sends no new message (no standalone card, no text
  chunk); and over any run of a reply from its initial state at most one standalone
  delivery is started.
\<close>

theorem finalize_delivers_standalone_at_most_once:
  "(trim (accumulatedText s) = [] \<longrightarrow> doDeliverFinalReply env s = (Returned, s))
   \<and> standalone_deliveries
        (new_calls s (snd (doDeliverFinalReply env (snd (doDeliverFinalReply env s))))) \<le> 1
   \<and> (standaloneDelivered s \<longrightarrow>
        list_all (\<lambda>c. \<not> is_fallback c) (new_calls s (snd (doDeliverFinalReply env s))))
   \<and> standalone_deliveries (netCalls (reply_run env ops reply_init)) \<le> 1"
proof -
  have a: "trim (accumulatedText s) = [] \<longrightarrow> doDeliverFinalReply env s = (Returned, s)"
    by (simp add: doDeliver_blank)
  have b: "standalone_deliveries
        (new_calls s (snd (doDeliverFinalReply env (snd (doDeliverFinalReply env s))))) \<le> 1"
    by (rule doDeliver_twice)
  have c: "standaloneDelivered s \<longrightarrow>
        list_all (\<lambda>c. \<not> is_fallback c) (new_calls s (snd (doDeliverFinalReply env s)))"
    by (simp add: doDeliver_after_standalone)
  have "guarded (reply_run env ops reply_init)"
    using guarded_init by (rule reply_run_guarded)
  then have d: "standalone_deliveries (netCalls (reply_run env ops reply_init)) \<le> 1"
    by (rule guarded_at_most_one)
  show ?thesis by (rule conjI [OF a conjI [OF b conjI [OF c d]]])
qed

theorem finalize_delivers_standalone_at_most_once_witness:
  "doDeliverFinalReply env_ok reply_init = (Returned, reply_init)
   \<and> standalone_deliveries
        (new_calls s_standalone
           (snd (doDeliverFinalReply env_ok (snd (doDeliverFinalReply env_ok s_standalone))))) \<le> 1
   \<and> list_all (\<lambda>c. \<not> is_fallback c)
        (new_calls s_standalone (snd (doDeliverFinalReply env_ok s_standalone)))
   \<and> standalone_deliveries
        (netCalls (reply_run env_ok
           [Deliver (Some (js ''X'')) None, Deliver (Some (js ''Y'')) None, OnIdle] reply_init)) \<le> 1"
proof -
  have blank: "trim (accumulatedText reply_init) = []"
    by (simp add: reply_init_def trim_def)
  have sd: "standaloneDelivered s_standalone"
    by (simp add: s_standalone_value)
  note a = finalize_delivers_standalone_at_most_once [of reply_init env_ok]
  note b = finalize_delivers_standalone_at_most_once
    [of s_standalone env_ok "[Deliver (Some (js ''X'')) None, Deliver (Some (js ''Y'')) None, OnIdle]"]
  from a blank have 1: "doDeliverFinalReply env_ok reply_init = (Returned, reply_init)" by blast
  from b sd show ?thesis using 1 by blast
qed

text \<open>
  Claim C8. \<open>schedulePatch\<close> with a timer pending changes nothing; with none pending it
  sets one timer with delay \<open>max 0 (patchIntervalMs - (now - lastPatchTime))\<close>, where
  \<open>patchIntervalMs\<close> is 500 unless the configuration gives a value. When the timer fires
  it is cleared and a non-final \<open>patchCard\<close> runs, unless \<open>streamingFailed\<close> is set, in
  which case nothing is sent. In every state a reply reaches from its initial state the
  pending timer is the only timer still to fire, so there is at most one.
\<close>

theorem patch_debounce_single_timer:
  "(pendingPatchTimer s \<noteq> None \<longrightarrow> schedulePatch env now s = s)
   \<and> (pendingPatchTimer s = None \<longrightarrow>
        schedulePatch env now s =
          s\<lparr>pendingPatchTimer := Some (nextTimer s),
            timers := timers s @
              [(nextTimer s, max 0 (patchIntervalMs (feishuCfg env) - (now - lastPatchTime s)))],
            nextTimer := nextTimer s + 1\<rparr>)
   \<and> patchIntervalMs None = 500
   \<and> patchIntervalMs (Some \<lparr>streaming = None\<rparr>) = 500
   \<and> patchIntervalMs (Some \<lparr>streaming = Some \<lparr>enabled = e, cfg_patchIntervalMs = None, cursor = c\<rparr>\<rparr>) = 500
   \<and> patchIntervalMs (Some \<lparr>streaming = Some \<lparr>enabled = e, cfg_patchIntervalMs = Some v, cursor = c\<rparr>\<rparr>) = v
   \<and> (h \<in> set (map fst (timers s)) \<longrightarrow>
        timerFires env h s =
          (if streamingFailed s
           then s\<lparr>timers := filter (\<lambda>(h', d). h' \<noteq> h) (timers s), pendingPatchTimer := None\<rparr>
           else patchCard env False
                  (s\<lparr>timers := filter (\<lambda>(h', d). h' \<noteq> h) (timers s), pendingPatchTimer := None\<rparr>)))
   \<and> (streamingFailed s \<longrightarrow> netCalls (timerFires env h s) = netCalls s)
   \<and> one_timer (reply_run env ops reply_init)
   \<and> length (timers (reply_run env ops reply_init)) \<le> 1"
proof -
  have a: "pendingPatchTimer s \<noteq> None \<longrightarrow> schedulePatch env now s = s"
    by (simp add: schedulePatch_def)
  have b: "pendingPatchTimer s = None \<longrightarrow>
        schedulePatch env now s =
          s\<lparr>pendingPatchTimer := Some (nextTimer s),
            timers := timers s @
              [(nextTimer s, max 0 (patchIntervalMs (feishuCfg env) - (now - lastPatchTime s)))],
            nextTimer := nextTimer s + 1\<rparr>"
    by (simp add: schedulePatch_def Let_def)
  have c: "patchIntervalMs None = 500" "patchIntervalMs (Some \<lparr>streaming = None\<rparr>) = 500"
    "patchIntervalMs (Some \<lparr>streaming = Some \<lparr>enabled = e, cfg_patchIntervalMs = None, cursor = c\<rparr>\<rparr>) = 500"
    "patchIntervalMs (Some \<lparr>streaming = Some \<lparr>enabled = e, cfg_patchIntervalMs = Some v, cursor = c\<rparr>\<rparr>) = v"
    by (simp_all add: patchIntervalMs_def DEFAULT_PATCH_INTERVAL_MS_def)
  have d: "h \<in> set (map fst (timers s)) \<longrightarrow>
        timerFires env h s =
          (if streamingFailed s
           then s\<lparr>timers := filter (\<lambda>(h', d). h' \<noteq> h) (timers s), pendingPatchTimer := None\<rparr>
           else patchCard env False
                  (s\<lparr>timers := filter (\<lambda>(h', d). h' \<noteq> h) (timers s), pendingPatchTimer := None\<rparr>))"
    by (simp add: timerFires_def Let_def)
  have e: "streamingFailed s \<longrightarrow> netCalls (timerFires env h s) = netCalls s"
    by (simp add: timerFires_def Let_def)
  have "one_timer reply_init" by (simp add: one_timer_def reply_init_def)
  then have f: "one_timer (reply_run env ops reply_init)" by (rule reply_run_one_timer)
  then have g: "length (timers (reply_run env ops reply_init)) \<le> 1" by (rule one_timer_length)
  show ?thesis
    by (rule conjI [OF a conjI [OF b conjI [OF c(1) conjI [OF c(2) conjI [OF c(3)
          conjI [OF c(4) conjI [OF d conjI [OF e conjI [OF f g]]]]]]]]])
qed

lemma s_failed_pending_value:
  "s_failed_pending = reply_init\<lparr>pendingPatchTimer := Some 1, streamingFailed := True,
      thinkingText := Some (js ''B''), hasThinkingContent := True,
      thinkingStartedAt := Some 100, timers := [(1, 300)], nextTimer := 2,
      netCalls := [CardCreate False]\<rparr>"
  by (simp add: s_failed_pending_def env_down_def reply_eval text_eval)

theorem patch_debounce_single_timer_witness:
  "schedulePatch env_ok 7000 s_pending = s_pending
   \<and> schedulePatch env_ok 6100 s_card
       = s_card\<lparr>pendingPatchTimer := Some 0, timers := [(0, 400)], nextTimer := 1\<rparr>
   \<and> timerFires env_ok 0 s_pending
       = patchCard env_ok False (s_pending\<lparr>timers := [], pendingPatchTimer := None\<rparr>)
   \<and> netCalls (timerFires env_down 1 s_failed_pending) = netCalls s_failed_pending
   \<and> length (timers (reply_run env_ok ops_reasoning reply_init)) \<le> 1"
proof -
  note p = patch_debounce_single_timer [of s_pending env_ok 7000 _ _ _ 0 ops_reasoning]
  note q = patch_debounce_single_timer [of s_card env_ok 6100]
  note r = patch_debounce_single_timer [of s_failed_pending env_down _ _ _ _ 1]
  have p1: "pendingPatchTimer s_pending \<noteq> None" by (simp add: s_pending_value)
  have p2: "0 \<in> set (map fst (timers s_pending))" by (simp add: s_pending_value)
  have p3: "\<not> streamingFailed s_pending" by (simp add: s_pending_value reply_init_def)
  have p4: "filter (\<lambda>(h', d). h' \<noteq> 0) (timers s_pending) = []" by (simp add: s_pending_value)
  have q1: "pendingPatchTimer s_card = None" by (simp add: s_card_value reply_init_def)
  have q2: "nextTimer s_card = 0" "timers s_card = []" "lastPatchTime s_card = 6000"
    "feishuCfg env_ok = None"
    by (simp_all add: s_card_value reply_init_def env_ok_def)
  have r1: "streamingFailed s_failed_pending" by (simp add: s_failed_pending_value)
  from p p1 have 1: "schedulePatch env_ok 7000 s_pending = s_pending" by blast
  from q q1 have "schedulePatch env_ok 6100 s_card =
          s_card\<lparr>pendingPatchTimer := Some (nextTimer s_card),
            timers := timers s_card @
              [(nextTimer s_card, max 0 (patchIntervalMs (feishuCfg env_ok) - (6100 - lastPatchTime s_card)))],
            nextTimer := nextTimer s_card + 1\<rparr>" by blast
  moreover from q have "patchIntervalMs None = 500" by blast
  ultimately have 2: "schedulePatch env_ok 6100 s_card
       = s_card\<lparr>pendingPatchTimer := Some 0, timers := [(0, 400)], nextTimer := 1\<rparr>"
    by (simp add: q2)
  from p p2 have "timerFires env_ok 0 s_pending =
          (if streamingFailed s_pending
           then s_pending\<lparr>timers := filter (\<lambda>(h', d). h' \<noteq> 0) (timers s_pending), pendingPatchTimer := None\<rparr>
           else patchCard env_ok False
                  (s_pending\<lparr>timers := filter (\<lambda>(h', d). h' \<noteq> 0) (timers s_pending), pendingPatchTimer := None\<rparr>))"
    by blast
  then have 3: "timerFires env_ok 0 s_pending
       = patchCard env_ok False (s_pending\<lparr>timers := [], pendingPatchTimer := None\<rparr>)"
    using p3 p4 by simp
  from r r1 have 4: "netCalls (timerFires env_down 1 s_failed_pending) = netCalls s_failed_pending"
    by blast
  from p have 5: "length (timers (reply_run env_ok ops_reasoning reply_init)) \<le> 1" by blast
  show ?thesis by (rule conjI [OF 1 conjI [OF 2 conjI [OF 3 conjI [OF 4 5]]]])
qed

lemma two_fragments:
  "\<not> endsWith x NL \<Longrightarrow> \<not> startsWith y NL \<Longrightarrow> joinFragments_spec [x, y] = x @ NL @ y"
  by (simp add: join_fragment_def)

lemma second_final_updates_card:
  assumes "non_blank y" and "accumulatedText s = x" and "x \<noteq> []"
    and "\<not> endsWith x NL" and "\<not> startsWith y NL"
    and "truthy (cardMessageId s)" and "network env (length (netCalls s)) \<noteq> Rejected"
  shows "netCalls (snd (deliver env (Some y) None s))
           = netCalls s @ [FinalUpdate (the (cardMessageId s)) (x @ NL @ y)]"
proof -
  let ?s' = "accumulate y s"
  have t: "accumulatedText ?s' = x @ NL @ y"
    using assms by (simp add: accumulate_text)
  have "non_blank (x @ NL @ y)"
    using assms(1) by (auto simp: non_blank_def trim_empty_iff)
  then have nb: "trim (accumulatedText ?s') \<noteq> []" by (simp add: t non_blank_def)
  have "snd (deliver env (Some y) None s) = snd (doDeliverFinalReply env ?s')"
    using assms(1) by (simp add: deliver_state or_empty_def non_blank_def)
  then show ?thesis
    using nb t assms(6,7)
    by (simp add: doDeliverFinalReply_state split: net_result.splits)
qed

text \<open>
  Claim C7, amended. After any run of a reply, \<open>accumulatedText\<close> is the join, by the rule
  of the specification, of the delivered texts that are not blank, in order. For two
  texts of which the first does not end and the second does not start with a newline, the
  join is the first, a newline, the second. When the second of them is delivered as final
  to a reply that has a card and whose update call resolves, that update carries the
  joined text as its body.
\<close>

theorem accumulated_text_joins_non_blank_fragments:
  "accumulatedText (reply_run env ops reply_init)
     = joinFragments_spec (filter non_blank (delivered_texts ops))
   \<and> (\<not> endsWith x NL \<and> \<not> startsWith y NL \<longrightarrow> joinFragments_spec [x, y] = x @ NL @ y)
   \<and> (non_blank y \<and> accumulatedText s = x \<and> x \<noteq> [] \<and> \<not> endsWith x NL \<and> \<not> startsWith y NL
        \<and> truthy (cardMessageId s) \<and> network env (length (netCalls s)) \<noteq> Rejected
      \<longrightarrow> netCalls (snd (deliver env (Some y) None s))
           = netCalls s @ [FinalUpdate (the (cardMessageId s)) (x @ NL @ y)])"
proof -
  have a: "accumulatedText (reply_run env ops reply_init)
     = joinFragments_spec (filter non_blank (delivered_texts ops))"
    by (rule accumulated_text_is_join)
  have b: "\<not> endsWith x NL \<and> \<not> startsWith y NL \<longrightarrow> joinFragments_spec [x, y] = x @ NL @ y"
    using two_fragments by blast
  have c: "non_blank y \<and> accumulatedText s = x \<and> x \<noteq> [] \<and> \<not> endsWith x NL \<and> \<not> startsWith y NL
        \<and> truthy (cardMessageId s) \<and> network env (length (netCalls s)) \<noteq> Rejected
      \<longrightarrow> netCalls (snd (deliver env (Some y) None s))
           = netCalls s @ [FinalUpdate (the (cardMessageId s)) (x @ NL @ y)]"
    using second_final_updates_card [of y s x env] by blast
  show ?thesis by (rule conjI [OF a conjI [OF b c]])
qed

lemma s_card_then_x:
  "reply_run env_ok [ReasoningStream (Some (js ''A'')) 5000, Settles 0, Deliver (Some (js ''X'')) None] reply_init
     = reply_init\<lparr>cardMessageId := Some (js ''om_card''), accumulatedText := js ''X'',
      lastPatchTime := 6000, thinkingText := Some (js ''A''), thinkingStopped := True,
      hasThinkingContent := True, thinkingStartedAt := Some 5000,
      netCalls := [CardCreate False, FinalUpdate (js ''om_card'') (js ''X'')]\<rparr>"
  by (simp add: env_ok_def reply_eval text_eval)

theorem accumulated_text_joins_non_blank_fragments_witness:
  "accumulatedText (reply_run env_ok ops_two_finals reply_init) = js ''X'' @ NL @ js ''Y''
   \<and> netCalls (snd (deliver env_ok (Some (js ''Y'')) None
        (reply_run env_ok [ReasoningStream (Some (js ''A'')) 5000, Settles 0, Deliver (Some (js ''X'')) None] reply_init)))
      = [CardCreate False, FinalUpdate (js ''om_card'') (js ''X''),
         FinalUpdate (js ''om_card'') (js ''X'' @ NL @ js ''Y'')]"
proof -
  let ?s = "reply_run env_ok [ReasoningStream (Some (js ''A'')) 5000, Settles 0, Deliver (Some (js ''X'')) None] reply_init"
  note m = accumulated_text_joins_non_blank_fragments
    [of env_ok ops_two_finals "js ''X''" "js ''Y''" ?s]
  have f: "filter non_blank (delivered_texts ops_two_finals) = [js ''X'', js ''Y'']"
    by (simp add: ops_two_finals_def text_eval)
  have b: "\<not> endsWith (js ''X'') NL \<and> \<not> startsWith (js ''Y'') NL" by (simp add: text_eval)
  have h: "non_blank (js ''Y'') \<and> accumulatedText ?s = js ''X'' \<and> js ''X'' \<noteq> []
        \<and> \<not> endsWith (js ''X'') NL \<and> \<not> startsWith (js ''Y'') NL
        \<and> truthy (cardMessageId ?s) \<and> network env_ok (length (netCalls ?s)) \<noteq> Rejected"
    by (simp add: s_card_then_x) (simp add: text_eval env_ok_def)
  from m f b have 1: "accumulatedText (reply_run env_ok ops_two_finals reply_init) = js ''X'' @ NL @ js ''Y''"
    by simp
  from m h have "netCalls (snd (deliver env_ok (Some (js ''Y'')) None ?s))
           = netCalls ?s @ [FinalUpdate (the (cardMessageId ?s)) (js ''X'' @ NL @ js ''Y'')]"
    by blast
  then have 2: "netCalls (snd (deliver env_ok (Some (js ''Y'')) None ?s))
      = [CardCreate False, FinalUpdate (js ''om_card'') (js ''X''),
         FinalUpdate (js ''om_card'') (js ''X'' @ NL @ js ''Y'')]"
    by (simp add: s_card_then_x)
  show ?thesis by (rule conjI [OF 1 2])
qed

text \<open>
  Claim C7 as stated does not hold. A blank fragment is dropped, so after the fragments
  \<open>" "\<close> and \<open>"Y"\<close> the accumulated text is \<open>"Y"\<close>, not their join. And in a reply
  without a card, two final fragments \<open>"X"\<close> and \<open>"Y"\<close> yield one standalone card with
  body \<open>"X"\<close> and no call whose body is the joined text.
\<close>

theorem accumulated_text_claim_counterexample:
  "accumulatedText (reply_run env_ok [Deliver (Some (js '' '')) None, Deliver (Some (js ''Y'')) None] reply_init)
     = js ''Y''
   \<and> joinFragments_spec [js '' '', js ''Y''] = js '' '' @ NL @ js ''Y''
   \<and> accumulatedText (reply_run env_ok [Deliver (Some (js '' '')) None, Deliver (Some (js ''Y'')) None] reply_init)
     \<noteq> joinFragments_spec [js '' '', js ''Y'']
   \<and> netCalls (reply_run env_ok [Deliver (Some (js ''X'')) None, Deliver (Some (js ''Y'')) None] reply_init)
     = [StandaloneCard (js ''X'')]
   \<and> FinalUpdate (js ''om_card'') (js ''X'' @ NL @ js ''Y'')
       \<notin> set (netCalls (reply_run env_ok [Deliver (Some (js ''X'')) None, Deliver (Some (js ''Y'')) None] reply_init))
   \<and> StandaloneCard (js ''X'' @ NL @ js ''Y'')
       \<notin> set (netCalls (reply_run env_ok [Deliver (Some (js ''X'')) None, Deliver (Some (js ''Y'')) None] reply_init))"
  by (simp add: env_ok_def reply_eval text_eval join_fragment_def)


end
